theory Spec2Isabelle
  imports Complex_Main
begin

section \<open>Beat detector and 8-count cycle tracker\<close>

text \<open>
  A shallow embedding of the two classes of the repository that carry its logic:
  \<^item> \<open>AudioProcessor\<close> (the beat detector with the predictive early trigger, the
    adaptive debounce and the stabilized tempo), and
  \<^item> \<open>BeatCounter\<close> (the 8-count cycle tracker, \<open>utils/beatCounter.ts\<close>).

  JavaScript numbers are modelled as \<open>real\<close>: sums, quotients and comparisons are
  exact, so rounding of IEEE doubles and the values \<open>NaN\<close> and \<open>Infinity\<close> are outside
  the model. Counters that only ever hold small non-negative integers are \<open>nat\<close>.
  Every mutation of \<open>this\<close> is a record update of an explicit state that the function
  returns; every callback invocation is an element of a returned list, in call order.
\<close>

subsection \<open>The detector: data\<close>

text \<open>The interface \<open>BeatDetectionResult\<close> handed to \<open>onBeat\<close>.\<close>

record BeatDetectionResult =
  beat :: bool
  downbeat :: bool
  timestamp :: real
  energy :: real

text \<open>
  The callbacks of one tick. The constructor \<open>OnBeat\<close> carries, besides the result, the
  place in \<open>processAudio\<close> that made the call (the predictive block or the main block);
  the source does not pass this on, it is recorded here so that statements can tell the
  two kinds of beat apart. \<open>OnBPMUpdate\<close> carries \<open>Math.round(currentStableBPM)\<close>.
\<close>

datatype origin = Predictive | MainPath

datatype callback = OnBeat origin BeatDetectionResult | OnBPMUpdate int

text \<open>The mutable fields of the class, with the initial values of their declarations.\<close>

record AudioProcessor =
  energyHistory :: "real list"
  beatHistory :: "real list"
  previousEnergy :: real
  bpmHistory :: "real list"
  currentStableBPM :: real
  lastBeatTime :: real
  beatCount :: nat
  predictedNextBeatTime :: real
  lastPredictedBeatTime :: real

definition initial :: AudioProcessor where
  "initial = \<lparr> energyHistory = [], beatHistory = [], previousEnergy = 0,
      bpmHistory = [], currentStableBPM = 0, lastBeatTime = 0, beatCount = 0,
      predictedNextBeatTime = 0, lastPredictedBeatTime = 0 \<rparr>"

text \<open>The \<open>readonly\<close> constants of the class.\<close>

definition historySize :: nat where "historySize = 43"
definition energyThresholdMultiplier :: real where "energyThresholdMultiplier = 1.3"
definition downbeatInterval :: nat where "downbeatInterval = 8"
definition minEnergyThreshold :: real where "minEnergyThreshold = 1.5"
definition onsetThreshold :: real where "onsetThreshold = 0.12"
definition bpmHistorySize :: nat where "bpmHistorySize = 20"
definition predictionOffset :: real where "predictionOffset = 250"

text \<open>
  What one call of \<open>processAudio\<close> reads from its environment:
  \<^item> \<open>tNow\<close>: \<open>performance.now()\<close> at the top of \<open>processAudio\<close>;
  \<^item> \<open>predEnergy\<close>: the weighted energy the predictive block computes from the
    analyser's bins (read only when that block is entered);
  \<^item> \<open>mainEnergy\<close>: the weighted energy the main block computes from the bins;
  \<^item> \<open>tDetect\<close>: \<open>performance.now()\<close> inside \<open>detectBeat\<close>;
  \<^item> \<open>tStamp\<close>: \<open>performance.now()\<close> after \<open>detectBeat\<close> has returned true.
\<close>

record Tick =
  tNow :: real
  predEnergy :: real
  mainEnergy :: real
  tDetect :: real
  tStamp :: real

subsection \<open>The detector: helpers\<close>

text \<open>\<open>xs.reduce((a, b) => a + b, 0) / xs.length\<close>.\<close>

definition average :: "real list \<Rightarrow> real" where
  "average xs = sum_list xs / real (length xs)"

text \<open>\<open>xs.push(x); if (xs.length > cap) xs.shift()\<close>.\<close>

definition pushCapped :: "nat \<Rightarrow> real list \<Rightarrow> real \<Rightarrow> real list" where
  "pushCapped cap xs x = (let ys = xs @ [x] in if length ys > cap then tl ys else ys)"

text \<open>The loop \<open>for (i = 1; i < h.length; i++) intervals.push(h[i] - h[i - 1])\<close>.\<close>

fun intervals :: "real list \<Rightarrow> real list" where
  "intervals (a # b # xs) = (b - a) # intervals (b # xs)"
| "intervals _ = []"

text \<open>The adaptive minimum interval of \<open>detectBeat\<close> (lines 381 to 392).\<close>

definition minInterval :: "real list \<Rightarrow> real" where
  "minInterval bh =
     (if length bh \<ge> 2 then max 150 (min 300 (average (intervals bh) * 0.6)) else 200)"

definition isDownbeat :: "AudioProcessor \<Rightarrow> bool" where
  "isDownbeat s = (beatCount s mod downbeatInterval = 0)"

definition updateBeatPrediction :: "real \<Rightarrow> AudioProcessor \<Rightarrow> AudioProcessor" where
  "updateBeatPrediction currentBeatTime s =
     (if length (beatHistory s) \<ge> 2
      then s\<lparr>predictedNextBeatTime := currentBeatTime + average (intervals (beatHistory s))\<rparr>
      else if currentStableBPM s > 0
      then s\<lparr>predictedNextBeatTime := currentBeatTime + 60000 / currentStableBPM s\<rparr>
      else s\<lparr>predictedNextBeatTime := 0\<rparr>)"

text \<open>
  \<open>calculateStableBPM\<close>: the history sorted ascending; with five or more samples the
  mean of \<open>sorted.slice(max(0, mid - 2), min(length, mid + 3))\<close>, otherwise the mean.
\<close>

definition calculateStableBPM :: "real list \<Rightarrow> real" where
  "calculateStableBPM h =
     (if length h = 0 then 0
      else let sorted = sort h in
        if length sorted \<ge> 5
        then let mid = length sorted div 2;
                 startIdx = max 0 (mid - 2);
                 endIdx = min (length sorted) (mid + 3);
                 middleValues = take (endIdx - startIdx) (drop startIdx sorted)
             in average middleValues
        else average sorted)"

text \<open>\<open>Math.round\<close>: the nearest integer, halves rounded up.\<close>

definition mathRound :: "real \<Rightarrow> int" where
  "mathRound x = \<lfloor>x + 1 / 2\<rfloor>"

subsection \<open>The detector: \<open>detectBeat\<close>\<close>

text \<open>
  \<open>detectBeat(currentEnergy)\<close>, with the clock value it reads as a second argument.
  It returns the verdict and the state with \<open>previousEnergy\<close> and \<open>beatHistory\<close>
  updated.
\<close>

definition detectBeat :: "real \<Rightarrow> real \<Rightarrow> AudioProcessor \<Rightarrow> bool \<times> AudioProcessor" where
  "detectBeat currentEnergy now s =
     (if length (energyHistory s) < historySize
      then (False, s\<lparr>previousEnergy := currentEnergy\<rparr>)
      else let avgEnergy = average (energyHistory s) in
       if avgEnergy < minEnergyThreshold
       then (False, s\<lparr>previousEnergy := currentEnergy\<rparr>)
       else let
          energyIncrease = (if previousEnergy s > 0
                            then (currentEnergy - previousEnergy s) / previousEnergy s else 0);
          hasOnset = (energyIncrease \<ge> onsetThreshold);
          variance = sum_list (map (\<lambda>e. (e - avgEnergy)\<^sup>2) (energyHistory s))
                       / real (length (energyHistory s));
          standardDeviation = sqrt variance;
          threshold = avgEnergy + energyThresholdMultiplier * standardDeviation;
          exceedsThreshold = (currentEnergy > threshold);
          exceedsRelative = (currentEnergy > avgEnergy * 1.08);
          hasSignificantEnergy = (currentEnergy > minEnergyThreshold);
          beatDetected = (hasSignificantEnergy \<and> exceedsThreshold \<and> (hasOnset \<or> exceedsRelative))
        in
         if beatDetected \<and> length (beatHistory s) > 0
              \<and> now - last (beatHistory s) < minInterval (beatHistory s)
         then (False, s\<lparr>previousEnergy := currentEnergy\<rparr>)
         else if beatDetected
         then (True, s\<lparr>beatHistory := pushCapped 15 (beatHistory s) now,
                         previousEnergy := currentEnergy\<rparr>)
         else (False, s\<lparr>previousEnergy := currentEnergy\<rparr>))"

subsection \<open>The detector: \<open>processAudio\<close>\<close>

text \<open>
  The predictive block of \<open>processAudio\<close> (lines 155 to 212). When it fires it calls
  \<open>onBeat\<close> with the time stamp \<open>now + predictionOffset\<close>.
\<close>

definition predictiveTrigger :: "Tick \<Rightarrow> AudioProcessor \<Rightarrow> AudioProcessor \<times> callback list" where
  "predictiveTrigger tk s =
     (if predictedNextBeatTime s > 0 \<and> tNow tk \<ge> predictedNextBeatTime s - predictionOffset
      then
        if length (energyHistory s) \<ge> historySize
        then
          if predEnergy tk > average (energyHistory s) * 1.05 \<and> predEnergy tk > minEnergyThreshold
          then
            if tNow tk - lastPredictedBeatTime s > 100
            then let ts = tNow tk + predictionOffset;
                     isDown = isDownbeat s;
                     s1 = s\<lparr>lastBeatTime := ts, beatCount := beatCount s + 1,
                             lastPredictedBeatTime := tNow tk\<rparr>;
                     s2 = updateBeatPrediction ts s1
                 in (s2, [OnBeat Predictive
                            \<lparr>beat = True, downbeat = isDown, timestamp = ts, energy = predEnergy tk\<rparr>])
            else (s, [])
          else (s, [])
        else (s, [])
      else (s, []))"

text \<open>
  The tempo block of \<open>processAudio\<close> (lines 268 to 316), run for an accepted main-path
  beat with time stamp \<open>ts\<close>. In JavaScript a zero interval gives \<open>Infinity\<close> and in
  HOL it gives \<open>0\<close>; both fail the range test, so the branch taken is the same.
\<close>

definition updateTempo :: "real \<Rightarrow> AudioProcessor \<Rightarrow> AudioProcessor \<times> callback list" where
  "updateTempo ts s =
     (if lastBeatTime s > 0
      then let interval = ts - lastBeatTime s;
               bpm = 60000 / interval
       in if bpm \<ge> 60 \<and> bpm \<le> 200
          then let
              hasEnoughSamples = (length (bpmHistory s) \<ge> 5);
              shouldRejectOutlier = (hasEnoughSamples \<and> currentStableBPM s > 0);
              s1 = (if shouldRejectOutlier
                    then let maxDeviation = currentStableBPM s * 0.4
                         in if \<bar>bpm - currentStableBPM s\<bar> > maxDeviation
                            then s
                            else s\<lparr>bpmHistory := pushCapped bpmHistorySize (bpmHistory s) bpm\<rparr>
                    else s\<lparr>bpmHistory := pushCapped bpmHistorySize (bpmHistory s) bpm\<rparr>)
            in if length (bpmHistory s1) \<ge> 3
               then let stableBPM = calculateStableBPM (bpmHistory s1);
                        s2 = (if currentStableBPM s1 = 0
                              then s1\<lparr>currentStableBPM := stableBPM\<rparr>
                              else s1\<lparr>currentStableBPM :=
                                         currentStableBPM s1 * 0.8 + stableBPM * 0.2\<rparr>)
                    in (s2, [OnBPMUpdate (mathRound (currentStableBPM s2))])
               else (s1, [])
          else (s, [])
      else (s, []))"

text \<open>
  The main block of \<open>processAudio\<close> (lines 214 to 331): the energy is pushed to the
  history, \<open>detectBeat\<close> is asked once the history is full, a detection within 150 ms
  of the last predictive trigger returns early, and otherwise the beat is accepted.
\<close>

definition mainPath :: "Tick \<Rightarrow> AudioProcessor \<Rightarrow> AudioProcessor \<times> callback list" where
  "mainPath tk s =
     (let s1 = s\<lparr>energyHistory := pushCapped historySize (energyHistory s) (mainEnergy tk)\<rparr>
      in if length (energyHistory s1) \<ge> historySize
         then let (beatDetected, s2) = detectBeat (mainEnergy tk) (tDetect tk) s1
          in if beatDetected
             then let ts = tStamp tk
              in if ts - lastPredictedBeatTime s2 < 150
                 then (s2, [])
                 else let isDown = isDownbeat s2;
                          (s3, cbs) = updateTempo ts s2;
                          s4 = s3\<lparr>lastBeatTime := ts, beatCount := beatCount s3 + 1\<rparr>;
                          s5 = updateBeatPrediction ts s4
                      in (s5, cbs @ [OnBeat MainPath
                            \<lparr>beat = True, downbeat = isDown, timestamp = ts, energy = mainEnergy tk\<rparr>])
             else (s2, [])
         else (s1, []))"

definition processAudio :: "Tick \<Rightarrow> AudioProcessor \<Rightarrow> AudioProcessor \<times> callback list" where
  "processAudio tk s =
     (let (s1, cbs1) = predictiveTrigger tk s;
          (s2, cbs2) = mainPath tk s1
      in (s2, cbs1 @ cbs2))"

text \<open>
  A session: \<open>processAudio\<close> re-schedules itself through \<open>requestAnimationFrame\<close>, so
  the detector sees a sequence of ticks. \<open>run\<close> threads the state through them and
  collects the callbacks in order.
\<close>

fun run :: "Tick list \<Rightarrow> AudioProcessor \<Rightarrow> AudioProcessor \<times> callback list" where
  "run [] s = (s, [])"
| "run (tk # tks) s =
     (let (s1, cbs1) = processAudio tk s;
          (s2, cbs2) = run tks s1
      in (s2, cbs1 @ cbs2))"

text \<open>The beat events among a list of callbacks, with the block that emitted each.\<close>

fun beatsOf :: "callback list \<Rightarrow> (origin \<times> BeatDetectionResult) list" where
  "beatsOf [] = []"
| "beatsOf (OnBeat p r # cbs) = (p, r) # beatsOf cbs"
| "beatsOf (OnBPMUpdate n # cbs) = beatsOf cbs"

subsection \<open>The cycle tracker\<close>

text \<open>
  The interface \<open>BeatCounterState\<close> and the fields of the class \<open>BeatCounter\<close>. The
  returned record's fields carry the suffix \<open>_st\<close>, the field \<open>lastBeatTime\<close> of the
  tracker the suffix \<open>_bc\<close>, because the plain names are taken by the detector.
\<close>

record BeatCounterState =
  currentBeat_st :: nat
  cycle_st :: nat
  isDownbeat_st :: bool
  isDashBeat_st :: bool

record BeatCounter =
  currentBeat :: nat
  cycle :: nat
  lastBeatTime_bc :: real
  cycleStartTime :: real
  currentBPM :: real
  expectedBeatInterval :: real

definition newBeatCounter :: BeatCounter where
  "newBeatCounter = \<lparr> currentBeat = 0, cycle = 0, lastBeatTime_bc = 0, cycleStartTime = 0,
      currentBPM = 0, expectedBeatInterval = 0 \<rparr>"

definition maxInterval :: real where "maxInterval = 3000"

text \<open>
  \<open>updateBeat(isDownbeat, timestamp, bpm?)\<close>. The optional argument is an \<open>option\<close>;
  \<open>bpm && bpm > 0\<close> holds for a supplied positive number only.
\<close>

definition updateBeat ::
  "bool \<Rightarrow> real \<Rightarrow> real option \<Rightarrow> BeatCounter \<Rightarrow> BeatCounter \<times> BeatCounterState" where
  "updateBeat isDown ts bpm c =
     (let now = ts;
          c1 = (case bpm of
                  Some b \<Rightarrow> if b > 0 then c\<lparr>currentBPM := b, expectedBeatInterval := 60000 / b\<rparr>
                            else c
                | None \<Rightarrow> c);
          c2 = (if lastBeatTime_bc c1 > 0 \<and> now - lastBeatTime_bc c1 > maxInterval
                then c1\<lparr>currentBeat := 0, cycle := 0, cycleStartTime := 0\<rparr> else c1);
          c3 = (if isDown
                then c2\<lparr>cycle := cycle c2 + 1, currentBeat := 0, cycleStartTime := now\<rparr>
                else c2\<lparr>currentBeat := (currentBeat c2 + 1) mod 8\<rparr>);
          c4 = c3\<lparr>lastBeatTime_bc := now\<rparr>;
          displayBeat = currentBeat c4 + 1;
          isDashBeat = (displayBeat = 4 \<or> displayBeat = 8)
      in (c4, \<lparr>currentBeat_st = displayBeat, cycle_st = cycle c4,
                isDownbeat_st = (isDown \<and> \<not> isDashBeat), isDashBeat_st = isDashBeat\<rparr>))"

definition reset :: "BeatCounter \<Rightarrow> BeatCounter" where
  "reset c = c\<lparr>currentBeat := 0, cycle := 0, lastBeatTime_bc := 0, cycleStartTime := 0,
      currentBPM := 0, expectedBeatInterval := 0\<rparr>"

definition getState :: "BeatCounter \<Rightarrow> BeatCounterState" where
  "getState c =
     (let displayBeat = currentBeat c + 1;
          isDashBeat = (displayBeat = 4 \<or> displayBeat = 8)
      in \<lparr>currentBeat_st = displayBeat, cycle_st = cycle c,
           isDownbeat_st = False, isDashBeat_st = isDashBeat\<rparr>)"

definition getExpectedNextBeatTime :: "BeatCounter \<Rightarrow> real option" where
  "getExpectedNextBeatTime c =
     (if currentBPM c = 0 \<or> expectedBeatInterval c = 0 then None
      else if cycleStartTime c = 0 then Some (lastBeatTime_bc c + expectedBeatInterval c)
      else Some (cycleStartTime c + (real (currentBeat c) + 1) * expectedBeatInterval c))"

text \<open>
  The operations a caller can apply to a tracker, and what each reports: \<open>updateBeat\<close>
  and \<open>getState\<close> return a \<open>BeatCounterState\<close>, \<open>reset\<close> returns nothing.
\<close>

datatype trackerOp = UpdateBeat bool real "real option" | GetState | Reset

fun applyOp :: "trackerOp \<Rightarrow> BeatCounter \<Rightarrow> BeatCounter \<times> BeatCounterState option" where
  "applyOp (UpdateBeat d ts bpm) c = (let (c', r) = updateBeat d ts bpm c in (c', Some r))"
| "applyOp GetState c = (c, Some (getState c))"
| "applyOp Reset c = (reset c, None)"

fun applyOps :: "trackerOp list \<Rightarrow> BeatCounter \<Rightarrow> BeatCounter \<times> BeatCounterState option list" where
  "applyOps [] c = (c, [])"
| "applyOps (op # ops) c =
     (let (c1, r) = applyOp op c;
          (c2, rs) = applyOps ops c1
      in (c2, r # rs))"

section \<open>Vocabulary of the statements\<close>

text \<open>What the claims ask of a reported \<open>BeatCounterState\<close>.\<close>

definition cycleStateOk :: "BeatCounterState \<Rightarrow> bool" where
  "cycleStateOk r =
     (1 \<le> currentBeat_st r \<and> currentBeat_st r \<le> 8
      \<and> (isDashBeat_st r = (currentBeat_st r = 4 \<or> currentBeat_st r = 8))
      \<and> (isDownbeat_st r \<longrightarrow> currentBeat_st r = 1))"

fun reportOk :: "BeatCounterState option \<Rightarrow> bool" where
  "reportOk None = True"
| "reportOk (Some r) = cycleStateOk r"

text \<open>The state the main block hands to \<open>detectBeat\<close>: the energy pushed to the history.\<close>

definition pushed :: "Tick \<Rightarrow> AudioProcessor \<Rightarrow> AudioProcessor" where
  "pushed tk s = s\<lparr>energyHistory := pushCapped historySize (energyHistory s) (mainEnergy tk)\<rparr>"

text \<open>The main block detects a beat: \<open>detectBeat\<close> returns true.\<close>

definition mainDetects :: "Tick \<Rightarrow> AudioProcessor \<Rightarrow> bool" where
  "mainDetects tk s = fst (detectBeat (mainEnergy tk) (tDetect tk) (pushed tk s))"

text \<open>
  The main block accepts the detected beat: it is not within 150 ms of the last
  predictive trigger.
\<close>

definition mainAccepts :: "Tick \<Rightarrow> AudioProcessor \<Rightarrow> bool" where
  "mainAccepts tk s = (mainDetects tk s \<and> \<not> tStamp tk - lastPredictedBeatTime s < 150)"

text \<open>The four nested conditions under which the predictive block calls \<open>onBeat\<close>.\<close>

definition predictiveFires :: "Tick \<Rightarrow> AudioProcessor \<Rightarrow> bool" where
  "predictiveFires tk s =
     (predictedNextBeatTime s > 0 \<and> tNow tk \<ge> predictedNextBeatTime s - predictionOffset
      \<and> length (energyHistory s) \<ge> historySize
      \<and> predEnergy tk > average (energyHistory s) * 1.05 \<and> predEnergy tk > minEnergyThreshold
      \<and> tNow tk - lastPredictedBeatTime s > 100)"

text \<open>The beats of a list carry the downbeat flags of the counter values \<open>n\<close>, \<open>n + 1\<close>, ...\<close>

fun countedFrom :: "nat \<Rightarrow> (origin \<times> BeatDetectionResult) list \<Rightarrow> bool" where
  "countedFrom n [] = True"
| "countedFrom n (e # es) = (downbeat (snd e) = (n mod 8 = 0) \<and> countedFrom (Suc n) es)"

text \<open>The last \<open>n\<close> elements of a list: what a FIFO of capacity \<open>n\<close> retains.\<close>

definition lastN :: "nat \<Rightarrow> 'a list \<Rightarrow> 'a list" where
  "lastN n xs = drop (length xs - n) xs"

text \<open>
  The clock readings of the main-path detections of a session (accepted or suppressed),
  in order.
\<close>

fun detections :: "Tick list \<Rightarrow> AudioProcessor \<Rightarrow> real list" where
  "detections [] s = []"
| "detections (tk # tks) s =
     (if mainDetects tk (fst (predictiveTrigger tk s)) then [tDetect tk] else [])
       @ detections tks (fst (processAudio tk s))"

text \<open>The result the predictive block hands to \<open>onBeat\<close>.\<close>

definition predictiveBeat :: "Tick \<Rightarrow> AudioProcessor \<Rightarrow> BeatDetectionResult" where
  "predictiveBeat tk s = \<lparr>beat = True, downbeat = isDownbeat s,
      timestamp = tNow tk + predictionOffset, energy = predEnergy tk\<rparr>"





text \<open>The accepted tempo range of the tempo block.\<close>

definition inRange :: "real \<Rightarrow> bool" where
  "inRange x = (60 \<le> x \<and> x \<le> 200)"

text \<open>
  The sum of the five sorted samples around the index \<open>m\<close>: the slice
  \<open>sorted.slice(mid - 2, mid + 3)\<close> of \<open>calculateStableBPM\<close>.
\<close>

definition window5 :: "real list \<Rightarrow> nat \<Rightarrow> real" where
  "window5 xs m = xs ! (m - 2) + xs ! (m - 1) + xs ! m + xs ! (m + 1) + xs ! (m + 2)"

text \<open>The smoothing step of the tempo block.\<close>

definition blend :: "real \<Rightarrow> real \<Rightarrow> real" where
  "blend st c = (if st = 0 then c else st * 0.8 + c * 0.2)"

text \<open>BPM History after the outlier filter of the tempo block has seen the sample \<open>bpm\<close>.\<close>

definition admitted :: "real \<Rightarrow> AudioProcessor \<Rightarrow> real list" where
  "admitted bpm s =
     (if 5 \<le> length (bpmHistory s) \<and> 0 < currentStableBPM s
          \<and> currentStableBPM s * 0.4 < \<bar>bpm - currentStableBPM s\<bar>
      then bpmHistory s else pushCapped bpmHistorySize (bpmHistory s) bpm)"

text \<open>The arguments of the \<open>onBPMUpdate\<close> calls among a list of callbacks.\<close>

fun bpmUpdates :: "callback list \<Rightarrow> int list" where
  "bpmUpdates [] = []"
| "bpmUpdates (OnBeat p r # cbs) = bpmUpdates cbs"
| "bpmUpdates (OnBPMUpdate n # cbs) = n # bpmUpdates cbs"

text \<open>
  How far the stabilized tempo \<open>st\<close> can lag behind the candidate \<open>c\<close> once BPM
  History holds five samples: three linear lower bounds, each the image of the previous
  one under a smoothing step in which the candidate rises by at most 28.
\<close>

definition lagBound :: "real \<Rightarrow> real \<Rightarrow> bool" where
  "lagBound st c =
     (60 \<le> st \<and> st \<le> 200 \<and> 48 + c / 5 \<le> st \<and> 848 / 25 + 9 / 25 * c \<le> st
      \<and> 2384 / 125 + 61 / 125 * c \<le> st)"

text \<open>
  The invariant of the tempo estimate, on BPM History and the stabilized tempo: the
  samples lie in 60..200, there are at most 20, and the stabilized tempo is 0 below three
  samples, the mean at three, one smoothing step further at four, and within
  \<open>lagBound\<close> of the candidate from five samples on.
\<close>

definition tempoOk :: "real list \<Rightarrow> real \<Rightarrow> bool" where
  "tempoOk h st =
     (list_all inRange h \<and> length h \<le> 20
      \<and> (if length h < 3 then st = 0
          else if length h = 3 then st = average h
          else if length h = 4 then st = average (take 3 h) * 0.8 + average h * 0.2
          else lagBound st (calculateStableBPM h)))"

definition tempoInv :: "AudioProcessor \<Rightarrow> bool" where
  "tempoInv s = tempoOk (bpmHistory s) (currentStableBPM s)"

text \<open>
  What one tick does to the tempo estimate: the invariant holds afterwards, an
  established tempo moves by at most 20 percent, and the tempo either stays or is the
  blend that \<open>onBPMUpdate\<close> reports.
\<close>

definition tempoStep :: "AudioProcessor \<Rightarrow> AudioProcessor \<Rightarrow> callback list \<Rightarrow> bool" where
  "tempoStep s s' cbs =
     (tempoInv s'
      \<and> (currentStableBPM s = 0
           \<or> \<bar>currentStableBPM s' - currentStableBPM s\<bar> \<le> 0.2 * currentStableBPM s)
      \<and> (bpmUpdates cbs = [] \<and> currentStableBPM s' = currentStableBPM s
           \<or> bpmUpdates cbs = [mathRound (currentStableBPM s')]
              \<and> currentStableBPM s'
                  = blend (currentStableBPM s) (calculateStableBPM (bpmHistory s'))))"

section \<open>Concrete sessions\<close>

text \<open>A session of seven calls on the tracker.\<close>

definition trackerSession :: "trackerOp list" where
  "trackerSession = [UpdateBeat True 1000 None, UpdateBeat False 1500 (Some 120),
     UpdateBeat False 2000 (Some 120), UpdateBeat False 2500 None, GetState, Reset, GetState]"

text \<open>The tracker after a downbeat at 500 ms and a beat at 1000 ms.\<close>

definition twoBeats :: BeatCounter where
  "twoBeats = fst (updateBeat False 1000 None (fst (updateBeat True 500 None newBeatCounter)))"

text \<open>A tick whose three clock readings coincide and whose two energy readings coincide.\<close>

definition tickAt :: "real \<Rightarrow> real \<Rightarrow> Tick" where
  "tickAt t e = \<lparr>tNow = t, predEnergy = e, mainEnergy = e, tDetect = t, tStamp = t\<rparr>"

text \<open>
  A session of the detector: 42 ticks of background energy 2, then ticks of energy 10 at
  1000 ms and 1500 ms (both accepted by the main block), at 1750 ms (the predictive block
  fires and stamps its beat 2000 ms; the main block is debounced), at 1850 ms (detected
  by the main block, but within 150 ms of the predictive trigger) and at 2110 ms
  (detected and accepted).
\<close>

definition coldTicks :: "Tick list" where
  "coldTicks = map (\<lambda>i. tickAt (16 * real i) 2) [1..<43]"

definition tkA :: Tick where "tkA = tickAt 1000 10"

definition tkB :: Tick where "tkB = tickAt 1500 10"

definition tkP :: Tick where "tkP = tickAt 1750 10"

definition tkS :: Tick where "tkS = tickAt 1850 10"

definition tkL :: Tick where "tkL = tickAt 2110 10"

definition demoTicks :: "Tick list" where
  "demoTicks = coldTicks @ [tkA, tkB, tkP, tkS, tkL]"

text \<open>The states of the detector after the cold start and after each of the five ticks.\<close>

definition sCold :: AudioProcessor where
  "sCold = \<lparr> energyHistory = replicate 42 2, beatHistory = [], previousEnergy = 0,
      bpmHistory = [], currentStableBPM = 0, lastBeatTime = 0, beatCount = 0,
      predictedNextBeatTime = 0, lastPredictedBeatTime = 0 \<rparr>"

definition sA :: AudioProcessor where
  "sA = \<lparr> energyHistory = replicate 42 2 @ [10], beatHistory = [1000], previousEnergy = 10,
      bpmHistory = [], currentStableBPM = 0, lastBeatTime = 1000, beatCount = 1,
      predictedNextBeatTime = 0, lastPredictedBeatTime = 0 \<rparr>"

definition sB :: AudioProcessor where
  "sB = \<lparr> energyHistory = replicate 41 2 @ [10, 10], beatHistory = [1000, 1500],
      previousEnergy = 10, bpmHistory = [120], currentStableBPM = 0, lastBeatTime = 1500,
      beatCount = 2, predictedNextBeatTime = 2000, lastPredictedBeatTime = 0 \<rparr>"

definition sP :: AudioProcessor where
  "sP = \<lparr> energyHistory = replicate 40 2 @ [10, 10, 10], beatHistory = [1000, 1500],
      previousEnergy = 10, bpmHistory = [120], currentStableBPM = 0, lastBeatTime = 2000,
      beatCount = 3, predictedNextBeatTime = 2500, lastPredictedBeatTime = 1750 \<rparr>"

definition sS :: AudioProcessor where
  "sS = \<lparr> energyHistory = replicate 39 2 @ [10, 10, 10, 10], beatHistory = [1000, 1500, 1850],
      previousEnergy = 10, bpmHistory = [120], currentStableBPM = 0, lastBeatTime = 2000,
      beatCount = 3, predictedNextBeatTime = 2500, lastPredictedBeatTime = 1750 \<rparr>"

definition sL :: AudioProcessor where
  "sL = \<lparr> energyHistory = replicate 38 2 @ [10, 10, 10, 10, 10],
      beatHistory = [1000, 1500, 1850, 2110], previousEnergy = 10, bpmHistory = [120],
      currentStableBPM = 0, lastBeatTime = 2110, beatCount = 4,
      predictedNextBeatTime = 2480, lastPredictedBeatTime = 1750 \<rparr>"

definition beatAt :: "bool \<Rightarrow> real \<Rightarrow> BeatDetectionResult" where
  "beatAt d t = \<lparr>beat = True, downbeat = d, timestamp = t, energy = 10\<rparr>"

text \<open>Sixty ticks at the minimum energy floor.\<close>

definition quietTicks :: "Tick list" where
  "quietTicks = map (\<lambda>i. tickAt (16 * real i) (3 / 2)) [1..<61]"

text \<open>
  A second session: after the cold start and the tick at 1000 ms, ticks of energy 10 at
  1800 ms (accepted), 2600 ms (the predictive block fires, the main detection is
  suppressed), 3350 ms, 3700 ms and 4050 ms (accepted by the main block; the third tempo
  sample establishes the stabilized tempo, the fourth moves it).
\<close>

definition tkC :: Tick where "tkC = tickAt 1800 10"

definition tkD :: Tick where "tkD = tickAt 2600 10"

definition tkE :: Tick where "tkE = tickAt 3350 10"

definition tkF :: Tick where "tkF = tickAt 3700 10"

definition tkG :: Tick where "tkG = tickAt 4050 10"

text \<open>The states of the detector after the ticks of the second session.\<close>

definition sC :: AudioProcessor where
  "sC = \<lparr> energyHistory = replicate 41 2 @ [10, 10], beatHistory = [1000, 1800],
      previousEnergy = 10, bpmHistory = [75], currentStableBPM = 0, lastBeatTime = 1800,
      beatCount = 2, predictedNextBeatTime = 2600, lastPredictedBeatTime = 0 \<rparr>"

definition sD :: AudioProcessor where
  "sD = \<lparr> energyHistory = replicate 40 2 @ [10, 10, 10], beatHistory = [1000, 1800, 2600],
      previousEnergy = 10, bpmHistory = [75], currentStableBPM = 0, lastBeatTime = 2850,
      beatCount = 3, predictedNextBeatTime = 3650, lastPredictedBeatTime = 2600 \<rparr>"

definition sE :: AudioProcessor where
  "sE = \<lparr> energyHistory = replicate 39 2 @ [10, 10, 10, 10],
      beatHistory = [1000, 1800, 2600, 3350], previousEnergy = 10, bpmHistory = [75, 120],
      currentStableBPM = 0, lastBeatTime = 3350, beatCount = 4,
      predictedNextBeatTime = 12400 / 3, lastPredictedBeatTime = 2600 \<rparr>"

definition sF :: AudioProcessor where
  "sF = \<lparr> energyHistory = replicate 38 2 @ [10, 10, 10, 10, 10],
      beatHistory = [1000, 1800, 2600, 3350, 3700], previousEnergy = 10,
      bpmHistory = [75, 120, 1200 / 7], currentStableBPM = 855 / 7, lastBeatTime = 3700,
      beatCount = 5, predictedNextBeatTime = 4375, lastPredictedBeatTime = 2600 \<rparr>"

definition sG :: AudioProcessor where
  "sG = \<lparr> energyHistory = replicate 37 2 @ [10, 10, 10, 10, 10, 10],
      beatHistory = [1000, 1800, 2600, 3350, 3700, 4050], previousEnergy = 10,
      bpmHistory = [75, 120, 1200 / 7, 1200 / 7], currentStableBPM = 3489 / 28,
      lastBeatTime = 4050, beatCount = 6, predictedNextBeatTime = 4660,
      lastPredictedBeatTime = 2600 \<rparr>"

section \<open>Properties\<close>

subsection \<open>The cycle tracker\<close>

lemma Suc_mod_8_le: "Suc n mod 8 \<le> 7"
  using mod_less_divisor[of 8 "Suc n"] by linarith

lemma updateBeat_position: "currentBeat (fst (updateBeat d ts bpm c)) < 8"
  using Suc_mod_8_le[of "currentBeat c"]
  by (auto simp add: updateBeat_def Let_def split: option.split)

lemma updateBeat_report: "cycleStateOk (snd (updateBeat d ts bpm c))"
  using Suc_mod_8_le[of "currentBeat c"]
  by (auto simp add: updateBeat_def Let_def cycleStateOk_def split: option.split)

lemma getState_report: "currentBeat c < 8 \<Longrightarrow> cycleStateOk (getState c)"
  by (simp add: getState_def Let_def cycleStateOk_def)

lemma applyOp_position:
  "currentBeat c < 8 \<Longrightarrow> currentBeat (fst (applyOp op c)) < 8"
  by (cases op) (simp_all add: reset_def split_beta updateBeat_position)

lemma applyOp_report:
  "currentBeat c < 8 \<Longrightarrow> reportOk (snd (applyOp op c))"
  by (cases op) (simp_all add: getState_report split_beta updateBeat_report)

lemma applyOps_ok:
  "currentBeat c < 8 \<Longrightarrow>
     list_all reportOk (snd (applyOps ops c)) \<and> currentBeat (fst (applyOps ops c)) < 8"
proof (induction ops arbitrary: c)
  case Nil
  then show ?case by simp
next
  case (Cons op ops)
  from Cons.prems have p: "currentBeat (fst (applyOp op c)) < 8"
    by (rule applyOp_position)
  from Cons.prems have r: "reportOk (snd (applyOp op c))"
    by (rule applyOp_report)
  from Cons.IH[OF p] r show ?case
    by (simp add: split_beta)
qed

text \<open>
  C6. Whatever sequence of \<open>updateBeat\<close>, \<open>getState\<close> and \<open>reset\<close> calls a fresh
  tracker receives, every state it reports, and the state \<open>getState\<close> would report
  afterwards, has its display position in 1..8, has \<open>isDashBeat\<close> exactly at the
  positions 4 and 8, and has \<open>isDownbeat\<close> only at position 1.
\<close>

theorem cycle_tracker_reports_ok:
  "list_all reportOk (snd (applyOps ops newBeatCounter))
   \<and> cycleStateOk (getState (fst (applyOps ops newBeatCounter)))"
  using applyOps_ok[of newBeatCounter ops] getState_report
  by (simp add: newBeatCounter_def)

lemma trackerSession_reports:
  "snd (applyOps trackerSession newBeatCounter)
     = [Some \<lparr>currentBeat_st = 1, cycle_st = 1, isDownbeat_st = True, isDashBeat_st = False\<rparr>,
        Some \<lparr>currentBeat_st = 2, cycle_st = 1, isDownbeat_st = False, isDashBeat_st = False\<rparr>,
        Some \<lparr>currentBeat_st = 3, cycle_st = 1, isDownbeat_st = False, isDashBeat_st = False\<rparr>,
        Some \<lparr>currentBeat_st = 4, cycle_st = 1, isDownbeat_st = False, isDashBeat_st = True\<rparr>,
        Some \<lparr>currentBeat_st = 4, cycle_st = 1, isDownbeat_st = False, isDashBeat_st = True\<rparr>,
        None,
        Some \<lparr>currentBeat_st = 1, cycle_st = 0, isDownbeat_st = False, isDashBeat_st = False\<rparr>]"
  by code_simp

text \<open>
  C6 on the session of seven calls: the reported states, all of them admissible.
\<close>

theorem cycle_tracker_reports_ok_witness:
  "snd (applyOps trackerSession newBeatCounter)
     = [Some \<lparr>currentBeat_st = 1, cycle_st = 1, isDownbeat_st = True, isDashBeat_st = False\<rparr>,
        Some \<lparr>currentBeat_st = 2, cycle_st = 1, isDownbeat_st = False, isDashBeat_st = False\<rparr>,
        Some \<lparr>currentBeat_st = 3, cycle_st = 1, isDownbeat_st = False, isDashBeat_st = False\<rparr>,
        Some \<lparr>currentBeat_st = 4, cycle_st = 1, isDownbeat_st = False, isDashBeat_st = True\<rparr>,
        Some \<lparr>currentBeat_st = 4, cycle_st = 1, isDownbeat_st = False, isDashBeat_st = True\<rparr>,
        None,
        Some \<lparr>currentBeat_st = 1, cycle_st = 0, isDownbeat_st = False, isDashBeat_st = False\<rparr>]
   \<and> list_all reportOk (snd (applyOps trackerSession newBeatCounter))
   \<and> cycleStateOk (getState (fst (applyOps trackerSession newBeatCounter)))"
  by (rule conjI[OF trackerSession_reports cycle_tracker_reports_ok])


lemma twoBeats_eq:
  "twoBeats = \<lparr> currentBeat = 1, cycle = 1, lastBeatTime_bc = 1000, cycleStartTime = 500,
      currentBPM = 0, expectedBeatInterval = 0 \<rparr>"
  by (simp add: twoBeats_def updateBeat_def newBeatCounter_def maxInterval_def Let_def)


text \<open>
  C10. \<open>getState\<close> reports \<open>isDownbeat = false\<close> in every tracker state; in particular
  \<open>updateBeat\<close> with a downbeat hint reports a downbeat, and \<open>getState\<close> asked right
  after it does not.
\<close>

theorem getState_never_downbeat:
  "\<not> isDownbeat_st (getState c)
   \<and> isDownbeat_st (snd (updateBeat True ts bpm c))
   \<and> \<not> isDownbeat_st (getState (fst (updateBeat True ts bpm c)))"
  by (simp add: getState_def updateBeat_def Let_def split: option.split)

text \<open>
  C10 on the tracker after two beats: a downbeat-hinted beat reports a downbeat,
  \<open>getState\<close> right after it does not.
\<close>

theorem getState_never_downbeat_witness:
  "\<not> isDownbeat_st (getState twoBeats)
   \<and> snd (updateBeat True 1500 (Some 120) twoBeats)
       = \<lparr>currentBeat_st = 1, cycle_st = 2, isDownbeat_st = True, isDashBeat_st = False\<rparr>
   \<and> getState (fst (updateBeat True 1500 (Some 120) twoBeats))
       = \<lparr>currentBeat_st = 1, cycle_st = 2, isDownbeat_st = False, isDashBeat_st = False\<rparr>"
  using getState_never_downbeat[of twoBeats 1500 "Some 120"]
  by (simp add: twoBeats_eq getState_def updateBeat_def maxInterval_def Let_def)

subsection \<open>The detector: what each block changes\<close>

lemma detectBeat_state:
  "detectBeat e now s = (b, s') \<Longrightarrow>
     s' = s\<lparr>previousEnergy := e,
            beatHistory := (if b then pushCapped 15 (beatHistory s) now else beatHistory s)\<rparr>"
  by (auto simp add: detectBeat_def Let_def split: if_splits)

lemma detectBeat_True:
  "detectBeat e now s = (True, s') \<Longrightarrow>
     historySize \<le> length (energyHistory s) \<and> minEnergyThreshold < e
     \<and> (beatHistory s = [] \<or> minInterval (beatHistory s) \<le> now - last (beatHistory s))"
  by (auto simp add: detectBeat_def Let_def split: if_splits)

lemma detectBeat_quiet:
  "e \<le> minEnergyThreshold \<Longrightarrow> fst (detectBeat e now s) = False"
  by (auto simp add: detectBeat_def Let_def split: if_splits)

lemma updateTempo_state:
  "updateTempo ts s = (s', cbs) \<Longrightarrow>
     s' = s\<lparr>bpmHistory := bpmHistory s', currentStableBPM := currentStableBPM s'\<rparr>
     \<and> beatsOf cbs = []"
  by (auto simp add: updateTempo_def Let_def split: if_splits)

lemma updateBeatPrediction_state:
  "updateBeatPrediction ts s = s\<lparr>predictedNextBeatTime := predictedNextBeatTime (updateBeatPrediction ts s)\<rparr>"
  by (simp add: updateBeatPrediction_def)

lemma beatsOf_append: "beatsOf (xs @ ys) = beatsOf xs @ beatsOf ys"
  by (induction xs rule: beatsOf.induct) simp_all

lemma predictiveTrigger_fires:
  "predictiveFires tk s \<Longrightarrow>
     predictiveTrigger tk s =
       (updateBeatPrediction (tNow tk + predictionOffset)
          (s\<lparr>lastBeatTime := tNow tk + predictionOffset, beatCount := beatCount s + 1,
             lastPredictedBeatTime := tNow tk\<rparr>),
        [OnBeat Predictive \<lparr>beat = True, downbeat = isDownbeat s,
            timestamp = tNow tk + predictionOffset, energy = predEnergy tk\<rparr>])"
  by (simp add: predictiveFires_def predictiveTrigger_def Let_def)

lemma predictiveTrigger_idle:
  "\<not> predictiveFires tk s \<Longrightarrow> predictiveTrigger tk s = (s, [])"
  by (auto simp add: predictiveFires_def predictiveTrigger_def Let_def)

lemma mainDetects_warm:
  "mainDetects tk s \<Longrightarrow> historySize \<le> length (energyHistory (pushed tk s))"
  unfolding mainDetects_def
  using detectBeat_True[of "mainEnergy tk" "tDetect tk" "pushed tk s"]
  by (metis prod.collapse)

lemma mainPath_idle:
  "\<not> mainDetects tk s \<Longrightarrow>
     snd (mainPath tk s) = []
     \<and> fst (mainPath tk s) =
         (if historySize \<le> length (energyHistory (pushed tk s))
          then (pushed tk s)\<lparr>previousEnergy := mainEnergy tk\<rparr> else pushed tk s)"
proof -
  assume n: "\<not> mainDetects tk s"
  obtain b s2 where d: "detectBeat (mainEnergy tk) (tDetect tk) (pushed tk s) = (b, s2)"
    by (cases "detectBeat (mainEnergy tk) (tDetect tk) (pushed tk s)")
  with n have b: "\<not> b" by (simp add: mainDetects_def)
  from detectBeat_state[OF d] b have s2: "s2 = (pushed tk s)\<lparr>previousEnergy := mainEnergy tk\<rparr>"
    by simp
  show ?thesis
    using d b s2 by (simp add: mainPath_def Let_def pushed_def[symmetric])
qed

lemma mainPath_suppressed:
  assumes "mainDetects tk s" and "tStamp tk - lastPredictedBeatTime s < 150"
  shows "mainPath tk s =
           ((pushed tk s)\<lparr>previousEnergy := mainEnergy tk,
               beatHistory := pushCapped 15 (beatHistory s) (tDetect tk)\<rparr>, [])"
proof -
  obtain b s2 where d: "detectBeat (mainEnergy tk) (tDetect tk) (pushed tk s) = (b, s2)"
    by (cases "detectBeat (mainEnergy tk) (tDetect tk) (pushed tk s)")
  with assms(1) have b: "b" by (simp add: mainDetects_def)
  from detectBeat_state[OF d] b
  have s2: "s2 = (pushed tk s)\<lparr>previousEnergy := mainEnergy tk,
               beatHistory := pushCapped 15 (beatHistory s) (tDetect tk)\<rparr>"
    by (simp add: pushed_def)
  have w: "historySize \<le> length (energyHistory (pushed tk s))"
    by (rule mainDetects_warm[OF assms(1)])
  have l: "lastPredictedBeatTime s2 = lastPredictedBeatTime s"
    by (simp add: s2 pushed_def)
  show ?thesis
    using d b w assms(2) l unfolding s2[symmetric]
    by (simp add: mainPath_def Let_def pushed_def[symmetric])
qed

lemma mainPath_accepts:
  assumes "mainAccepts tk s"
  shows "\<exists>s3 cbs.
      updateTempo (tStamp tk)
         ((pushed tk s)\<lparr>previousEnergy := mainEnergy tk,
               beatHistory := pushCapped 15 (beatHistory s) (tDetect tk)\<rparr>) = (s3, cbs)
      \<and> mainPath tk s =
          (updateBeatPrediction (tStamp tk)
             (s3\<lparr>lastBeatTime := tStamp tk, beatCount := beatCount s + 1\<rparr>),
           cbs @ [OnBeat MainPath \<lparr>beat = True, downbeat = isDownbeat s,
                     timestamp = tStamp tk, energy = mainEnergy tk\<rparr>])"
proof -
  from assms have det: "mainDetects tk s" and far: "\<not> tStamp tk - lastPredictedBeatTime s < 150"
    by (simp_all add: mainAccepts_def)
  obtain b s2 where d: "detectBeat (mainEnergy tk) (tDetect tk) (pushed tk s) = (b, s2)"
    by (cases "detectBeat (mainEnergy tk) (tDetect tk) (pushed tk s)")
  with det have b: "b" by (simp add: mainDetects_def)
  from detectBeat_state[OF d] b
  have s2: "s2 = (pushed tk s)\<lparr>previousEnergy := mainEnergy tk,
               beatHistory := pushCapped 15 (beatHistory s) (tDetect tk)\<rparr>"
    by (simp add: pushed_def)
  have w: "historySize \<le> length (energyHistory (pushed tk s))"
    by (rule mainDetects_warm[OF det])
  have l: "lastPredictedBeatTime s2 = lastPredictedBeatTime s"
    and c: "beatCount s2 = beatCount s"
    by (simp_all add: s2 pushed_def)
  obtain s3 cbs where u: "updateTempo (tStamp tk) s2 = (s3, cbs)"
    by (cases "updateTempo (tStamp tk) s2")
  from updateTempo_state[OF u] have c3: "beatCount s3 = beatCount s2"
    by (metis (no_types, lifting) AudioProcessor.select_convs(7) AudioProcessor.surjective AudioProcessor.update_convs(4,5))
  have i: "isDownbeat s2 = isDownbeat s"
    by (simp add: isDownbeat_def c)
  have "mainPath tk s =
          (updateBeatPrediction (tStamp tk)
             (s3\<lparr>lastBeatTime := tStamp tk, beatCount := beatCount s + 1\<rparr>),
           cbs @ [OnBeat MainPath \<lparr>beat = True, downbeat = isDownbeat s,
                     timestamp = tStamp tk, energy = mainEnergy tk\<rparr>])"
    using d b w far l u c3 c i
    by (simp add: mainPath_def Let_def pushed_def[symmetric])
  with u show ?thesis unfolding s2 by blast
qed

subsection \<open>The detector: the accepted-beat counter and the downbeat flag\<close>

lemma countedFrom_append:
  "countedFrom n (xs @ ys) = (countedFrom n xs \<and> countedFrom (n + length xs) ys)"
  by (induction xs arbitrary: n) auto

lemma countedFrom_nth:
  "countedFrom n es = (\<forall>i<length es. downbeat (snd (es ! i)) = ((n + i) mod 8 = 0))"
proof (induction es arbitrary: n)
  case Nil
  then show ?case by simp
next
  case (Cons e es)
  show ?case
    unfolding countedFrom.simps Cons.IH
    by (auto simp add: nth_Cons split: nat.splits)
qed

lemma predictiveTrigger_counts:
  "predictiveTrigger tk s = (s', cbs) \<Longrightarrow>
     countedFrom (beatCount s) (beatsOf cbs) \<and> beatCount s' = beatCount s + length (beatsOf cbs)"
  by (cases "predictiveFires tk s")
     (auto simp add: predictiveTrigger_fires predictiveTrigger_idle updateBeatPrediction_def
        isDownbeat_def downbeatInterval_def)

lemma beatCount_updateBeatPrediction [simp]:
  "beatCount (updateBeatPrediction ts s) = beatCount s"
  by (simp add: updateBeatPrediction_def)

lemma mainPath_counts:
  "mainPath tk s = (s', cbs) \<Longrightarrow>
     countedFrom (beatCount s) (beatsOf cbs) \<and> beatCount s' = beatCount s + length (beatsOf cbs)"
proof (cases "mainAccepts tk s")
  case True
  assume m: "mainPath tk s = (s', cbs)"
  from mainPath_accepts[OF True] obtain s3 cbs3 where
    u: "updateTempo (tStamp tk)
         ((pushed tk s)\<lparr>previousEnergy := mainEnergy tk,
               beatHistory := pushCapped 15 (beatHistory s) (tDetect tk)\<rparr>) = (s3, cbs3)"
    and p: "mainPath tk s =
          (updateBeatPrediction (tStamp tk)
             (s3\<lparr>lastBeatTime := tStamp tk, beatCount := beatCount s + 1\<rparr>),
           cbs3 @ [OnBeat MainPath \<lparr>beat = True, downbeat = isDownbeat s,
                     timestamp = tStamp tk, energy = mainEnergy tk\<rparr>])"
    by blast
  from updateTempo_state[OF u] have b: "beatsOf cbs3 = []" by simp
  from m p b show ?thesis
    by (auto simp add: beatsOf_append isDownbeat_def downbeatInterval_def)
next
  case False
  assume m: "mainPath tk s = (s', cbs)"
  show ?thesis
  proof (cases "mainDetects tk s")
    case True
    with False have "tStamp tk - lastPredictedBeatTime s < 150" by (simp add: mainAccepts_def)
    from mainPath_suppressed[OF True this] m show ?thesis by (auto simp add: pushed_def)
  next
    case False
    from mainPath_idle[OF False] m show ?thesis by (auto simp add: pushed_def)
  qed
qed

lemma processAudio_counts:
  "processAudio tk s = (s', cbs) \<Longrightarrow>
     countedFrom (beatCount s) (beatsOf cbs) \<and> beatCount s' = beatCount s + length (beatsOf cbs)"
proof -
  assume a: "processAudio tk s = (s', cbs)"
  obtain s1 cbs1 where p: "predictiveTrigger tk s = (s1, cbs1)" by (cases "predictiveTrigger tk s")
  obtain s2 cbs2 where m: "mainPath tk s1 = (s2, cbs2)" by (cases "mainPath tk s1")
  from a p m have e: "s' = s2" "cbs = cbs1 @ cbs2" by (simp_all add: processAudio_def)
  from predictiveTrigger_counts[OF p] mainPath_counts[OF m] show ?thesis
    unfolding e by (simp add: beatsOf_append countedFrom_append)
qed

lemma run_counts:
  "run tks s = (s', cbs) \<Longrightarrow>
     countedFrom (beatCount s) (beatsOf cbs) \<and> beatCount s' = beatCount s + length (beatsOf cbs)"
proof (induction tks arbitrary: s s' cbs)
  case Nil
  then show ?case by simp
next
  case (Cons tk tks)
  obtain s1 cbs1 where p: "processAudio tk s = (s1, cbs1)" by (cases "processAudio tk s")
  obtain s2 cbs2 where r: "run tks s1 = (s2, cbs2)" by (cases "run tks s1")
  from Cons.prems p r have e: "s' = s2" "cbs = cbs1 @ cbs2" by simp_all
  from processAudio_counts[OF p] Cons.IH[OF r] show ?case
    unfolding e by (simp add: beatsOf_append countedFrom_append)
qed

text \<open>
  C4. In every session, started in any state, the \<open>i\<close>-th beat event emitted (by the
  main block or by the predictive block) carries \<open>downbeat = true\<close> exactly when the
  accepted-beat counter at the start plus \<open>i\<close> is a multiple of 8, and the counter at
  the end is the counter at the start plus the number of beat events emitted: it
  increments by one on every accepted beat of either kind. From the initial state the
  counter starts at 0, so the beats 0, 8, 16, ... are the downbeats.
\<close>

theorem downbeat_every_eighth:
  assumes "run tks s = (s', cbs)"
  shows "(\<forall>i<length (beatsOf cbs).
            downbeat (snd (beatsOf cbs ! i)) = ((beatCount s + i) mod 8 = 0))
         \<and> beatCount s' = beatCount s + length (beatsOf cbs)"
  using run_counts[OF assms] by (simp add: countedFrom_nth)

subsection \<open>The detector: silence and the cold start\<close>

lemma predictiveTrigger_quiet:
  "predEnergy tk \<le> minEnergyThreshold \<Longrightarrow> predictiveTrigger tk s = (s, [])"
  by (rule predictiveTrigger_idle) (simp add: predictiveFires_def)

lemma mainPath_quiet:
  "mainEnergy tk \<le> minEnergyThreshold \<Longrightarrow> snd (mainPath tk s) = []"
  using mainPath_idle[of tk s] detectBeat_quiet[of "mainEnergy tk" "tDetect tk" "pushed tk s"]
  by (simp add: mainDetects_def)

lemma processAudio_quiet:
  "predEnergy tk \<le> minEnergyThreshold \<Longrightarrow> mainEnergy tk \<le> minEnergyThreshold \<Longrightarrow>
     snd (processAudio tk s) = []"
  using mainPath_quiet[of tk s]
  by (simp add: processAudio_def predictiveTrigger_quiet split_beta)

lemma run_quiet:
  "\<forall>tk\<in>set tks. predEnergy tk \<le> minEnergyThreshold \<and> mainEnergy tk \<le> minEnergyThreshold \<Longrightarrow>
     snd (run tks s) = []"
proof (induction tks arbitrary: s)
  case Nil
  then show ?case by simp
next
  case (Cons tk tks)
  then show ?case
    by (simp add: split_beta processAudio_quiet)
qed

lemma processAudio_cold:
  assumes "length (energyHistory s) + 1 < historySize"
  shows "processAudio tk s = (s\<lparr>energyHistory := energyHistory s @ [mainEnergy tk]\<rparr>, [])"
proof -
  from assms have "\<not> predictiveFires tk s" by (simp add: predictiveFires_def)
  then have p: "predictiveTrigger tk s = (s, [])" by (rule predictiveTrigger_idle)
  from assms have q: "pushCapped historySize (energyHistory s) (mainEnergy tk)
      = energyHistory s @ [mainEnergy tk]"
    by (simp add: pushCapped_def)
  show ?thesis
    using assms by (simp add: processAudio_def p mainPath_def q Let_def)
qed

text \<open>
  C3. If every energy a session reads (by the predictive block and by the main block) is
  at or below the minimum energy floor of 1.5, the session invokes no callback at all,
  whatever state it starts in and however long it is (so in particular from the initial
  state with 43 snapshots or more). And on a tick after which Energy History is still
  shorter than 43, \<open>processAudio\<close> only appends the energy to Energy History: no
  callback, no call of \<open>detectBeat\<close>, no other field changed, whatever the energies.
\<close>

theorem silence_emits_nothing:
  assumes "\<forall>tk\<in>set tks. predEnergy tk \<le> minEnergyThreshold \<and> mainEnergy tk \<le> minEnergyThreshold"
  shows "snd (run tks s) = []
         \<and> (\<forall>tk' s'. length (energyHistory s') + 1 < historySize \<longrightarrow>
               processAudio tk' s' = (s'\<lparr>energyHistory := energyHistory s' @ [mainEnergy tk']\<rparr>, []))"
  using run_quiet[OF assms] processAudio_cold by blast

subsection \<open>The detector: a detection right after a predictive trigger\<close>

lemma predictiveTrigger_beats:
  "beatsOf (snd (predictiveTrigger tk s)) =
     (if predictiveFires tk s
      then [(Predictive, \<lparr>beat = True, downbeat = isDownbeat s,
               timestamp = tNow tk + predictionOffset, energy = predEnergy tk\<rparr>)]
      else [])"
  by (simp add: predictiveTrigger_fires predictiveTrigger_idle)

text \<open>
  C7. If on a tick the main block detects a beat (\<open>detectBeat\<close> returns true) and the
  clock reading taken after the detection is less than 150 ms after the last predictive
  trigger, the main block emits nothing: the callbacks of the tick are those of the
  predictive block alone, so the tick's beat events are the one predictive beat if the
  predictive block fired on this tick and none otherwise. The energy is nevertheless
  pushed to Energy History, \<open>previousEnergy\<close> is updated and the detection time enters
  Beat History; nothing else changes. (The guard is \<open>timestamp - lastPredictedBeatTime
  < 150\<close>: a detection exactly 150 ms after the trigger is not suppressed.)
\<close>

theorem main_detection_suppressed:
  assumes "predictiveTrigger tk s = (s1, cbs1)"
      and "mainDetects tk s1"
      and "tStamp tk - lastPredictedBeatTime s1 < 150"
  shows "processAudio tk s =
           (s1\<lparr>energyHistory := pushCapped historySize (energyHistory s1) (mainEnergy tk),
               previousEnergy := mainEnergy tk,
               beatHistory := pushCapped 15 (beatHistory s1) (tDetect tk)\<rparr>, cbs1)
         \<and> beatsOf (snd (processAudio tk s)) =
             (if predictiveFires tk s
              then [(Predictive, \<lparr>beat = True, downbeat = isDownbeat s,
                       timestamp = tNow tk + predictionOffset, energy = predEnergy tk\<rparr>)]
              else [])"
proof -
  have m: "mainPath tk s1 =
           ((pushed tk s1)\<lparr>previousEnergy := mainEnergy tk,
               beatHistory := pushCapped 15 (beatHistory s1) (tDetect tk)\<rparr>, [])"
    by (rule mainPath_suppressed[OF assms(2,3)])
  have p: "processAudio tk s =
           (s1\<lparr>energyHistory := pushCapped historySize (energyHistory s1) (mainEnergy tk),
               previousEnergy := mainEnergy tk,
               beatHistory := pushCapped 15 (beatHistory s1) (tDetect tk)\<rparr>, cbs1)"
    by (simp add: processAudio_def assms(1) m pushed_def)
  have "cbs1 = snd (predictiveTrigger tk s)" by (simp add: assms(1))
  with p predictiveTrigger_beats[of tk s] show ?thesis by simp
qed

subsection \<open>The detector: what a predictive beat leaves alone\<close>

lemma predictiveTrigger_frame:
  "predictiveTrigger tk s = (s', cbs) \<Longrightarrow>
     s' = s\<lparr>lastBeatTime := lastBeatTime s', beatCount := beatCount s',
            lastPredictedBeatTime := lastPredictedBeatTime s',
            predictedNextBeatTime := predictedNextBeatTime s'\<rparr>"
  by (cases "predictiveFires tk s")
     (auto simp add: predictiveTrigger_fires predictiveTrigger_idle updateBeatPrediction_def)

lemma predictiveTrigger_beatHistory:
  "beatHistory (fst (predictiveTrigger tk s)) = beatHistory s"
  by (cases "predictiveFires tk s")
     (auto simp add: predictiveTrigger_fires predictiveTrigger_idle updateBeatPrediction_def)

lemma mainPath_beatHistory:
  "beatHistory (fst (mainPath tk s)) =
     (if mainDetects tk s then pushCapped 15 (beatHistory s) (tDetect tk) else beatHistory s)"
proof (cases "mainAccepts tk s")
  case True
  from mainPath_accepts[OF True] obtain s3 cbs3 where
    u: "updateTempo (tStamp tk)
         ((pushed tk s)\<lparr>previousEnergy := mainEnergy tk,
               beatHistory := pushCapped 15 (beatHistory s) (tDetect tk)\<rparr>) = (s3, cbs3)"
    and p: "mainPath tk s =
          (updateBeatPrediction (tStamp tk)
             (s3\<lparr>lastBeatTime := tStamp tk, beatCount := beatCount s + 1\<rparr>),
           cbs3 @ [OnBeat MainPath \<lparr>beat = True, downbeat = isDownbeat s,
                     timestamp = tStamp tk, energy = mainEnergy tk\<rparr>])"
    by blast
  from updateTempo_state[OF u] have "beatHistory s3 = pushCapped 15 (beatHistory s) (tDetect tk)"
    by (metis (no_types, lifting) AudioProcessor.select_convs(2) AudioProcessor.surjective
        AudioProcessor.update_convs(2,4,5))
  with True p show ?thesis
    by (simp add: mainAccepts_def updateBeatPrediction_def)
next
  case False
  show ?thesis
  proof (cases "mainDetects tk s")
    case True
    with False have "tStamp tk - lastPredictedBeatTime s < 150" by (simp add: mainAccepts_def)
    from mainPath_suppressed[OF True this] True show ?thesis by simp
  next
    case False
    from mainPath_idle[OF False] False show ?thesis by (simp add: pushed_def)
  qed
qed

lemma processAudio_beatHistory:
  "beatHistory (fst (processAudio tk s)) =
     (if mainDetects tk (fst (predictiveTrigger tk s))
      then pushCapped 15 (beatHistory s) (tDetect tk) else beatHistory s)"
  using mainPath_beatHistory[of tk "fst (predictiveTrigger tk s)"]
  by (simp add: processAudio_def split_beta predictiveTrigger_beatHistory)

lemma pushCapped_lastN:
  "length xs \<le> n \<Longrightarrow> pushCapped n xs x = lastN n (xs @ [x])"
  by (cases xs) (auto simp add: pushCapped_def lastN_def Let_def Suc_diff_le)

lemma lastN_lastN_append: "lastN n (lastN n xs @ ys) = lastN n (xs @ ys)"
  by (cases "n \<le> length xs") (simp_all add: lastN_def add.commute)

lemma length_lastN: "length (lastN n xs) \<le> n"
  by (simp add: lastN_def)

lemma lastN_id: "length xs \<le> n \<Longrightarrow> lastN n xs = xs"
  by (simp add: lastN_def)

lemma run_beatHistory:
  "length (beatHistory s) \<le> 15 \<Longrightarrow>
     beatHistory (fst (run tks s)) = lastN 15 (beatHistory s @ detections tks s)"
proof (induction tks arbitrary: s)
  case Nil
  then show ?case by (simp add: lastN_id)
next
  case (Cons tk tks)
  let ?s1 = "fst (processAudio tk s)"
  let ?d = "if mainDetects tk (fst (predictiveTrigger tk s)) then [tDetect tk] else []"
  have b: "beatHistory ?s1 = lastN 15 (beatHistory s @ ?d)"
    using Cons.prems by (simp add: processAudio_beatHistory pushCapped_lastN lastN_id)
  then have l: "length (beatHistory ?s1) \<le> 15" by (simp add: length_lastN)
  have "beatHistory (fst (run (tk # tks) s)) = beatHistory (fst (run tks ?s1))"
    by (simp add: split_beta)
  also have "\<dots> = lastN 15 (beatHistory ?s1 @ detections tks ?s1)"
    by (rule Cons.IH[OF l])
  also have "\<dots> = lastN 15 ((beatHistory s @ ?d) @ detections tks ?s1)"
    unfolding b by (rule lastN_lastN_append)
  finally show ?case by simp
qed

text \<open>
  C9. Whenever the predictive block runs, the state it returns differs from the state it
  received at most in \<open>lastBeatTime\<close>, \<open>beatCount\<close>, \<open>lastPredictedBeatTime\<close> and
  \<open>predictedNextBeatTime\<close>; Beat History and BPM History are unchanged. And in every
  session from the initial state Beat History is exactly the last 15 clock readings of the
  main-path detections, so the adaptive debounce interval and the interval-based
  prediction, which read Beat History only, are computed from main-path detections alone.
\<close>

theorem predictive_beat_frame:
  "(predictiveTrigger tk s = (s', cbs) \<longrightarrow>
      s' = s\<lparr>lastBeatTime := lastBeatTime s', beatCount := beatCount s',
             lastPredictedBeatTime := lastPredictedBeatTime s',
             predictedNextBeatTime := predictedNextBeatTime s'\<rparr>
      \<and> beatHistory s' = beatHistory s \<and> bpmHistory s' = bpmHistory s)
   \<and> beatHistory (fst (run tks initial)) = lastN 15 (detections tks initial)"
proof -
  have "beatHistory (fst (run tks initial)) = lastN 15 (beatHistory initial @ detections tks initial)"
    by (rule run_beatHistory) (simp add: initial_def)
  then have r: "beatHistory (fst (run tks initial)) = lastN 15 (detections tks initial)"
    by (simp add: initial_def)
  have "predictiveTrigger tk s = (s', cbs) \<Longrightarrow> beatHistory s' = beatHistory s \<and> bpmHistory s' = bpmHistory s"
    using predictiveTrigger_frame[of tk s s' cbs]
    by (metis (no_types, lifting) AudioProcessor.select_convs(2,4) AudioProcessor.surjective
        AudioProcessor.update_convs(6,7,8,9))
  with r predictiveTrigger_frame[of tk s s' cbs] show ?thesis by blast
qed

subsection \<open>The detector: the beats of one tick, and invariants of a session\<close>






lemma run_invariant:
  assumes "\<And>tk s es. tk \<in> set tks \<Longrightarrow> I s es \<Longrightarrow>
              I (fst (processAudio tk s)) (es @ beatsOf (snd (processAudio tk s)))"
      and "I s es"
  shows "I (fst (run tks s)) (es @ beatsOf (snd (run tks s)))"
  using assms
proof (induction tks arbitrary: s es)
  case Nil
  then show ?case by simp
next
  case (Cons tk tks)
  have 1: "I (fst (processAudio tk s)) (es @ beatsOf (snd (processAudio tk s)))"
    by (rule Cons.prems(1)) (simp_all add: Cons.prems(2))
  have "I (fst (run tks (fst (processAudio tk s))))
          ((es @ beatsOf (snd (processAudio tk s))) @ beatsOf (snd (run tks (fst (processAudio tk s)))))"
    by (rule Cons.IH[OF _ 1]) (simp add: Cons.prems(1))
  then show ?case by (simp add: split_beta beatsOf_append)
qed

subsection \<open>The detector: the adaptive debounce\<close>







subsection \<open>The detector: admission of tempo samples\<close>




lemma predictiveTrigger_tempo:
  "bpmHistory (fst (predictiveTrigger tk s)) = bpmHistory s
   \<and> currentStableBPM (fst (predictiveTrigger tk s)) = currentStableBPM s"
  by (cases "predictiveFires tk s")
     (auto simp add: predictiveTrigger_fires predictiveTrigger_idle updateBeatPrediction_def)





subsection \<open>Evaluating the detector: a code equation without the square root\<close>

lemma sqrt_less_iff_sq: "0 \<le> v \<Longrightarrow> 0 \<le> y \<Longrightarrow> sqrt v < y \<longleftrightarrow> v < y\<^sup>2"
  by (metis real_sqrt_less_iff real_sqrt_abs abs_of_nonneg)

lemma exceeds_iff:
  assumes "0 \<le> v"
  shows "(a + 13/10 * sqrt v < e) \<longleftrightarrow> (a < e \<and> 169 * v < 100 * (e - a)\<^sup>2)"
proof (cases "a < e")
  case False
  have "0 \<le> sqrt v" using assms by simp
  then have "a \<le> a + 13/10 * sqrt v" by simp
  with False show ?thesis by linarith
next
  case True
  then have y: "0 \<le> (e - a) * 10 / 13" by simp
  have "(a + 13/10 * sqrt v < e) \<longleftrightarrow> sqrt v < (e - a) * 10 / 13" by (simp add: field_simps)
  also have "\<dots> \<longleftrightarrow> v < ((e - a) * 10 / 13)\<^sup>2"
    by (rule sqrt_less_iff_sq[OF assms y])
  also have "\<dots> \<longleftrightarrow> 169 * v < 100 * (e - a)\<^sup>2" by (simp add: power2_eq_square field_simps)
  finally show ?thesis using True by simp
qed

lemma variance_nonneg: "0 \<le> sum_list (map (\<lambda>e. (e - a)\<^sup>2) xs) / real (length xs)"
  by (intro divide_nonneg_nonneg sum_list_nonneg) auto

lemma detectBeat_code [code]:
  "detectBeat currentEnergy now s =
     (if length (energyHistory s) < historySize
      then (False, s\<lparr>previousEnergy := currentEnergy\<rparr>)
      else let avgEnergy = average (energyHistory s) in
       if avgEnergy < minEnergyThreshold
       then (False, s\<lparr>previousEnergy := currentEnergy\<rparr>)
       else let
          energyIncrease = (if previousEnergy s > 0
                            then (currentEnergy - previousEnergy s) / previousEnergy s else 0);
          hasOnset = (energyIncrease \<ge> onsetThreshold);
          variance = sum_list (map (\<lambda>e. (e - avgEnergy)\<^sup>2) (energyHistory s))
                       / real (length (energyHistory s));
          exceedsThreshold = (avgEnergy < currentEnergy
                               \<and> 169 * variance < 100 * (currentEnergy - avgEnergy)\<^sup>2);
          exceedsRelative = (currentEnergy > avgEnergy * 1.08);
          hasSignificantEnergy = (currentEnergy > minEnergyThreshold);
          beatDetected = (hasSignificantEnergy \<and> exceedsThreshold \<and> (hasOnset \<or> exceedsRelative))
        in
         if beatDetected \<and> length (beatHistory s) > 0
              \<and> now - last (beatHistory s) < minInterval (beatHistory s)
         then (False, s\<lparr>previousEnergy := currentEnergy\<rparr>)
         else if beatDetected
         then (True, s\<lparr>beatHistory := pushCapped 15 (beatHistory s) now,
                         previousEnergy := currentEnergy\<rparr>)
         else (False, s\<lparr>previousEnergy := currentEnergy\<rparr>))"
proof -
  let ?a = "average (energyHistory s)"
  let ?V = "sum_list (map (\<lambda>e. (e - ?a)\<^sup>2) (energyHistory s)) / real (length (energyHistory s))"
  have E: "(?a + 1.3 * sqrt ?V < currentEnergy)
             = (?a < currentEnergy \<and> 169 * ?V < 100 * (currentEnergy - ?a)\<^sup>2)"
    by (rule exceeds_iff[OF variance_nonneg])
  show ?thesis
    by (simp only: detectBeat_def Let_def energyThresholdMultiplier_def E)
qed

subsection \<open>The concrete session, tick by tick\<close>

lemma run_append:
  "run (xs @ ys) s = (fst (run ys (fst (run xs s))), snd (run xs s) @ snd (run ys (fst (run xs s))))"
  by (induction xs arbitrary: s) (simp_all add: split_beta)

lemma run_single: "run [tk] s = processAudio tk s"
  by (simp add: split_beta)

lemma run_coldTicks: "run coldTicks initial = (sCold, [])"
  by code_simp

lemma step_tkA: "processAudio tkA sCold = (sA, [OnBeat MainPath (beatAt True 1000)])"
  by code_simp

lemma step_tkB: "processAudio tkB sA = (sB, [OnBeat MainPath (beatAt False 1500)])"
  by code_simp

lemma step_tkP: "processAudio tkP sB = (sP, [OnBeat Predictive (beatAt False 2000)])"
  by code_simp

lemma step_tkS: "processAudio tkS sP = (sS, [])"
  by code_simp

lemma step_tkL: "processAudio tkL sS = (sL, [OnBeat MainPath (beatAt False 2110)])"
  by code_simp




lemma run_demoTicks:
  "run demoTicks initial
     = (sL, [OnBeat MainPath (beatAt True 1000), OnBeat MainPath (beatAt False 1500),
             OnBeat Predictive (beatAt False 2000), OnBeat MainPath (beatAt False 2110)])"
  by (simp add: demoTicks_def run_append run_coldTicks step_tkA step_tkB step_tkP step_tkS
      step_tkL split_beta)

subsection \<open>Witnesses and counterexamples on the concrete session\<close>





lemma tkP_fires: "predictiveFires tkP sB" by code_simp

lemma tkS_detected: "mainDetects tkS sP" by code_simp

lemma tkS_not_predicted: "\<not> predictiveFires tkS sP" by code_simp

lemma tkL_accepted: "mainAccepts tkL sS" by code_simp

lemma tkL_not_predicted: "\<not> predictiveFires tkL sS" by code_simp




lemma stamps_A_B: "(200::real) \<le> timestamp (beatAt False 1500) - timestamp (beatAt True 1000)"
  by (simp add: beatAt_def)




lemma sP_tempo: "bpmHistory sP = [120]" "currentStableBPM sP = 0" "beatHistory sP = [1000, 1500]"
  "lastPredictedBeatTime sP = 1750"
  by (simp_all add: sP_def)

lemma sS_fields: "beatHistory sS = [1000, 1500, 1850]"
  by (simp_all add: sS_def)

lemma sL_fields: "beatHistory sL = [1000, 1500, 1850, 2110]" "beatCount sL = 4"
  by (simp_all add: sL_def)

lemma initial_count: "beatCount initial = 0"
  by (simp add: initial_def)

lemma tick_fields:
  "tNow tkP = 1750" "tStamp tkS = 1850" "tStamp tkB = 1500" "tNow tkB = 1500"
  "tDetect tkB = 1500" "tDetect tkS = 1850" "mainEnergy tkS = 10" "mainEnergy tkA = 10"
  by (simp_all add: tkP_def tkS_def tkB_def tkA_def tickAt_def)







text \<open>
  C3 on sixty ticks at the floor of 1.5: no callback; and on the initial state a tick of
  energy 10 only appends to Energy History.
\<close>

theorem silence_emits_nothing_witness:
  "length quietTicks = 60 \<and> snd (run quietTicks initial) = []
   \<and> processAudio tkA initial = (initial\<lparr>energyHistory := energyHistory initial @ [mainEnergy tkA]\<rparr>, [])"
proof -
  have q: "\<forall>tk\<in>set quietTicks. predEnergy tk \<le> minEnergyThreshold \<and> mainEnergy tk \<le> minEnergyThreshold"
    by (simp add: quietTicks_def tickAt_def minEnergyThreshold_def)
  have c: "length (energyHistory initial) + 1 < historySize"
    by (simp add: initial_def historySize_def)
  have l: "length quietTicks = 60" by (simp add: quietTicks_def)
  from silence_emits_nothing[OF q, of initial] c l show ?thesis
    by blast
qed

text \<open>
  C4 on the first session: four beats, the first a downbeat, the fourth not, and the
  counter ends at 4.
\<close>

theorem downbeat_every_eighth_witness:
  "run demoTicks initial
     = (sL, [OnBeat MainPath (beatAt True 1000), OnBeat MainPath (beatAt False 1500),
             OnBeat Predictive (beatAt False 2000), OnBeat MainPath (beatAt False 2110)])
   \<and> beatCount initial = 0
   \<and> downbeat (snd (beatsOf [OnBeat MainPath (beatAt True 1000), OnBeat MainPath (beatAt False 1500),
             OnBeat Predictive (beatAt False 2000), OnBeat MainPath (beatAt False 2110)] ! 0))
   \<and> \<not> downbeat (snd (beatsOf [OnBeat MainPath (beatAt True 1000), OnBeat MainPath (beatAt False 1500),
             OnBeat Predictive (beatAt False 2000), OnBeat MainPath (beatAt False 2110)] ! 3))
   \<and> beatCount sL = 4"
proof -
  let ?cbs = "[OnBeat MainPath (beatAt True 1000), OnBeat MainPath (beatAt False 1500),
             OnBeat Predictive (beatAt False 2000), OnBeat MainPath (beatAt False 2110)]"
  note t = downbeat_every_eighth[OF run_demoTicks]
  have "downbeat (snd (beatsOf ?cbs ! 0)) = ((beatCount initial + 0) mod 8 = 0)"
    by (rule t[THEN conjunct1, rule_format]) simp
  then have d0: "downbeat (snd (beatsOf ?cbs ! 0))"
    by (simp add: initial_count)
  have "downbeat (snd (beatsOf ?cbs ! 3)) = ((beatCount initial + 3) mod 8 = 0)"
    by (rule t[THEN conjunct1, rule_format]) simp
  then have d3: "\<not> downbeat (snd (beatsOf ?cbs ! 3))"
    by (simp add: initial_count)
  have "beatCount sL = beatCount initial + length (beatsOf ?cbs)"
    by (rule t[THEN conjunct2])
  then have c: "beatCount sL = 4" by (simp add: initial_count)
  show ?thesis
    by (intro conjI) (fact run_demoTicks initial_count d0 d3 c)+
qed

lemma pred_beat_tkP: "predictiveBeat tkP sB = beatAt False 2000" by code_simp

text \<open>
  C7 on the first session: the predictive block fires at 1750 ms; the main block detects a
  beat at 1850 ms, 100 ms after the trigger, and emits nothing, so the two ticks yield one
  beat event, while Energy History and Beat History are updated.
\<close>

theorem main_detection_suppressed_witness:
  "processAudio tkP sB = (sP, [OnBeat Predictive (beatAt False 2000)])
   \<and> lastPredictedBeatTime sP = tNow tkP
   \<and> mainDetects tkS sP
   \<and> tStamp tkS - lastPredictedBeatTime sP = 100
   \<and> processAudio tkS sP = (sS, [])
   \<and> sS = sP\<lparr>energyHistory := pushCapped historySize (energyHistory sP) (mainEnergy tkS),
               previousEnergy := mainEnergy tkS,
               beatHistory := pushCapped 15 (beatHistory sP) (tDetect tkS)\<rparr>
   \<and> beatsOf (snd (run [tkP, tkS] sB)) = [(Predictive, beatAt False 2000)]"
proof -
  have idle: "predictiveTrigger tkS sP = (sP, [])"
    by (rule predictiveTrigger_idle[OF tkS_not_predicted])
  have gap: "tStamp tkS - lastPredictedBeatTime sP = 100"
    by (simp add: tick_fields sP_tempo)
  then have near: "tStamp tkS - lastPredictedBeatTime sP < 150" by simp
  have "processAudio tkS sP =
           (sP\<lparr>energyHistory := pushCapped historySize (energyHistory sP) (mainEnergy tkS),
               previousEnergy := mainEnergy tkS,
               beatHistory := pushCapped 15 (beatHistory sP) (tDetect tkS)\<rparr>, [])"
    by (rule main_detection_suppressed[OF idle tkS_detected near, THEN conjunct1])
  then have st: "sS = sP\<lparr>energyHistory := pushCapped historySize (energyHistory sP) (mainEnergy tkS),
               previousEnergy := mainEnergy tkS,
               beatHistory := pushCapped 15 (beatHistory sP) (tDetect tkS)\<rparr>"
    by (simp only: step_tkS prod.inject)
  have lp: "lastPredictedBeatTime sP = tNow tkP" by (simp add: tick_fields sP_tempo)
  have r: "beatsOf (snd (run [tkP, tkS] sB)) = [(Predictive, beatAt False 2000)]"
    by (simp add: step_tkP step_tkS)
  show ?thesis
    by (intro conjI) (fact step_tkP lp tkS_detected gap step_tkS st r)+
qed

lemma trigger_tkP:
  "predictiveTrigger tkP sB
     = (sB\<lparr>lastBeatTime := 2000, beatCount := 3, lastPredictedBeatTime := 1750,
           predictedNextBeatTime := 2500\<rparr>, [OnBeat Predictive (beatAt False 2000)])"
  by code_simp

text \<open>
  C9 on the first session: the predictive trigger at 1750 ms changes the four fields only,
  and Beat History at the end holds the four main-path detection times.
\<close>

theorem predictive_beat_frame_witness:
  "predictiveTrigger tkP sB
     = (sB\<lparr>lastBeatTime := 2000, beatCount := 3, lastPredictedBeatTime := 1750,
           predictedNextBeatTime := 2500\<rparr>, [OnBeat Predictive (beatAt False 2000)])
   \<and> beatHistory (sB\<lparr>lastBeatTime := 2000, beatCount := 3, lastPredictedBeatTime := 1750,
           predictedNextBeatTime := 2500\<rparr>) = beatHistory sB
   \<and> bpmHistory (sB\<lparr>lastBeatTime := 2000, beatCount := 3, lastPredictedBeatTime := 1750,
           predictedNextBeatTime := 2500\<rparr>) = bpmHistory sB
   \<and> beatHistory (fst (run demoTicks initial)) = [1000, 1500, 1850, 2110]
   \<and> lastN 15 (detections demoTicks initial) = [1000, 1500, 1850, 2110]"
proof -
  let ?s' = "sB\<lparr>lastBeatTime := 2000, beatCount := 3, lastPredictedBeatTime := 1750,
           predictedNextBeatTime := 2500\<rparr>"
  note t = predictive_beat_frame[of tkP sB ?s' "[OnBeat Predictive (beatAt False 2000)]" demoTicks]
  from t[THEN conjunct1, rule_format, OF trigger_tkP]
  have f: "beatHistory ?s' = beatHistory sB" "bpmHistory ?s' = bpmHistory sB" by blast+
  have b: "beatHistory (fst (run demoTicks initial)) = [1000, 1500, 1850, 2110]"
    by (simp add: run_demoTicks sL_fields)
  have d: "lastN 15 (detections demoTicks initial) = [1000, 1500, 1850, 2110]"
    using t[THEN conjunct2] b by simp
  show ?thesis
    by (intro conjI) (fact trigger_tkP f b d)+
qed

subsection \<open>The detector: the candidate tempo under a push\<close>

lemma insort_nth_le:
  "sorted xs \<Longrightarrow> i < length xs \<Longrightarrow> insort v xs ! i \<le> xs ! i"
proof (induction xs arbitrary: i)
  case Nil
  then show ?case by simp
next
  case (Cons x xs)
  show ?case
  proof (cases "v \<le> x")
    case True
    show ?thesis
    proof (cases i)
      case 0
      with True show ?thesis by simp
    next
      case (Suc j)
      have "(x # xs) ! j \<le> (x # xs) ! Suc j"
        using Cons.prems Suc by (intro sorted_nth_mono) simp_all
      with True Suc show ?thesis by simp
    qed
  next
    case False
    show ?thesis
    proof (cases i)
      case 0
      with False show ?thesis by simp
    next
      case (Suc j)
      with Cons.prems have "insort v xs ! j \<le> xs ! j"
        by (intro Cons.IH) simp_all
      with False Suc show ?thesis by simp
    qed
  qed
qed

lemma nth_le_insort_Suc:
  "sorted xs \<Longrightarrow> i < length xs \<Longrightarrow> xs ! i \<le> insort v xs ! Suc i"
proof (induction xs arbitrary: i)
  case Nil
  then show ?case by simp
next
  case (Cons x xs)
  show ?case
  proof (cases "v \<le> x")
    case True
    then show ?thesis by simp
  next
    case False
    show ?thesis
    proof (cases i)
      case 0
      have "insort v xs ! 0 \<in> set (insort v xs)"
        by (intro nth_mem) simp
      then have "insort v xs ! 0 = v \<or> insort v xs ! 0 \<in> set xs"
        by (simp add: set_insort_key)
      with Cons.prems(1) False have "x \<le> insort v xs ! 0" by auto
      with False 0 show ?thesis by simp
    next
      case (Suc j)
      with Cons.prems have "xs ! j \<le> insort v xs ! Suc j"
        by (intro Cons.IH) simp_all
      with False Suc show ?thesis by simp
    qed
  qed
qed

lemma sort_snoc: "sort (xs @ [v::real]) = insort v (sort xs)"
proof -
  have "foldr insort xs (insort v ys) = insort v (foldr insort xs ys)" for ys :: "real list"
    by (induction xs) (simp_all add: insort_left_comm)
  from this[of "[]"] show ?thesis by (simp add: sort_key_def)
qed

lemma sum_list_insort: "sum_list (insort (v::real) xs) = v + sum_list xs"
  by (induction xs) simp_all

lemma sum_list_sort: "sum_list (sort (xs::real list)) = sum_list xs"
  by (induction xs) (simp_all add: sum_list_insort)

lemma average_sort: "average (sort xs) = average xs"
  by (simp add: average_def sum_list_sort)

lemma take5_drop:
  assumes "k + 5 \<le> length xs"
  shows "take 5 (drop k xs) = [xs ! k, xs ! (k + 1), xs ! (k + 2), xs ! (k + 3), xs ! (k + 4)]"
proof (rule nth_equalityI)
  show "length (take 5 (drop k xs))
          = length [xs ! k, xs ! (k + 1), xs ! (k + 2), xs ! (k + 3), xs ! (k + 4)]"
    using assms by simp
next
  fix i
  assume "i < length (take 5 (drop k xs))"
  then have "i < 5" by simp
  then have "i = 0 \<or> i = 1 \<or> i = 2 \<or> i = 3 \<or> i = 4" by linarith
  then show "take 5 (drop k xs) ! i
               = [xs ! k, xs ! (k + 1), xs ! (k + 2), xs ! (k + 3), xs ! (k + 4)] ! i"
    using assms by (auto simp add: numeral_3_eq_3 numeral_Bit0 add.commute)
qed

lemma calculateStableBPM_window:
  assumes "5 \<le> length h"
  shows "calculateStableBPM h = window5 (sort h) (length h div 2) / 5"
proof -
  let ?m = "length h div 2"
  have m: "2 \<le> ?m" "?m + 3 \<le> length h" using assms by presburger+
  have k: "(?m - 2) + 5 \<le> length (sort h)" using m by simp
  have i: "?m - 2 + 1 = ?m - 1" "?m - 2 + 2 = ?m" "?m - 2 + 3 = ?m + 1" "?m - 2 + 4 = ?m + 2"
    using m by simp_all
  have ne: "h \<noteq> []" using assms by auto
  have e: "min (length (sort h)) (?m + 3) - max 0 (?m - 2) = 5" using m by simp
  have "calculateStableBPM h = average (take 5 (drop (max 0 (?m - 2)) (sort h)))"
    unfolding calculateStableBPM_def Let_def using assms ne e by simp
  also have "max 0 (?m - 2) = ?m - 2" by simp
  also have "take 5 (drop (?m - 2) (sort h))
      = [sort h ! (?m - 2), sort h ! (?m - 1), sort h ! ?m, sort h ! (?m + 1), sort h ! (?m + 2)]"
    using take5_drop[OF k] unfolding i .
  finally show ?thesis
    by (simp add: average_def window5_def)
qed

lemma calculateStableBPM_small:
  assumes "0 < length h" "length h < 5"
  shows "calculateStableBPM h = average h"
  using assms by (simp add: calculateStableBPM_def Let_def average_sort)

lemma sort_nth_inRange:
  assumes "list_all inRange h" "i < length h"
  shows "inRange (sort h ! i)"
proof -
  have "sort h ! i \<in> set (sort h)" using assms(2) by (intro nth_mem) simp
  then have "sort h ! i \<in> set h" by simp
  with assms(1) show ?thesis by (simp add: list_all_iff)
qed

lemma window5_inRange:
  assumes "list_all inRange h" "5 \<le> length h"
  shows "inRange (calculateStableBPM h)"
proof -
  let ?m = "length h div 2"
  have m: "2 \<le> ?m" "?m + 3 \<le> length h" using assms(2) by presburger+
  have "inRange (sort h ! (?m - 2))" "inRange (sort h ! (?m - 1))" "inRange (sort h ! ?m)"
       "inRange (sort h ! (?m + 1))" "inRange (sort h ! (?m + 2))"
    using m by (auto intro!: sort_nth_inRange[OF assms(1)])
  then have "300 \<le> window5 (sort h) ?m \<and> window5 (sort h) ?m \<le> 1000"
    unfolding window5_def inRange_def by linarith
  then show ?thesis
    unfolding calculateStableBPM_window[OF assms(2)] inRange_def by simp
qed

lemma candidate_after_append:
  assumes r: "list_all inRange h" "inRange v" and n: "5 \<le> length h"
  shows "calculateStableBPM (h @ [v]) \<le> calculateStableBPM h + 28"
proof -
  let ?xs = "sort h" and ?ys = "sort (h @ [v])"
  let ?m = "length h div 2"
  have ys: "?ys = insort v ?xs" by (rule sort_snoc)
  have m: "2 \<le> ?m" "?m + 3 \<le> length h" using n by presburger+
  have sx: "sorted ?xs" by simp
  have le: "?ys ! i \<le> ?xs ! i" if "i < length h" for i
    unfolding ys using that by (intro insort_nth_le[OF sx]) simp
  have r': "list_all inRange (h @ [v])" using r by simp
  have n': "5 \<le> length (h @ [v])" using n by simp
  have c: "calculateStableBPM h = window5 ?xs ?m / 5"
    by (rule calculateStableBPM_window[OF n])
  have c': "calculateStableBPM (h @ [v]) = window5 ?ys (length (h @ [v]) div 2) / 5"
    by (rule calculateStableBPM_window[OF n'])
  show ?thesis
  proof (cases "even (length h)")
    case True
    then have m': "length (h @ [v]) div 2 = ?m" by simp
    from True n have "6 \<le> length h" by presburger
    then have i: "?m - 2 < length h" "?m - 1 < length h" "?m < length h" "?m + 1 < length h"
      "?m + 2 < length h" by presburger+
    have "window5 ?ys ?m \<le> window5 ?xs ?m"
      unfolding window5_def
      using le[OF i(1)] le[OF i(2)] le[OF i(3)] le[OF i(4)] le[OF i(5)] by linarith
    then show ?thesis unfolding c c' m' by simp
  next
    case False
    then have m': "length (h @ [v]) div 2 = ?m + 1" by (simp; presburger)
    have i: "?m - 1 < length h" "?m < length h" "?m + 1 < length h" "?m + 2 < length h"
      using False n by presburger+
    have j: "?m + 3 < length (h @ [v])" using False n by (simp; presburger)
    have top: "inRange (?ys ! (?m + 3))" by (rule sort_nth_inRange[OF r' j])
    have bot: "inRange (?xs ! (?m - 2))"
      using m by (intro sort_nth_inRange[OF r(1)]) simp
    have k: "?m + 1 - 2 = ?m - 1" "?m + 1 - 1 = ?m" "?m + 1 + 1 = ?m + 2" "?m + 1 + 2 = ?m + 3"
      using m by simp_all
    have "window5 ?ys (?m + 1) \<le> window5 ?xs ?m + 140"
      unfolding window5_def k
      using le[OF i(1)] le[OF i(2)] le[OF i(3)] le[OF i(4)] top bot
      unfolding inRange_def by linarith
    then show ?thesis unfolding c c' m' by simp
  qed
qed

lemma candidate_after_shift:
  assumes r: "list_all inRange (a # t)" "inRange v" and n: "length (a # t) = 20"
  shows "calculateStableBPM (t @ [v]) \<le> calculateStableBPM (a # t) + 28"
proof -
  let ?ts = "sort t"
  let ?xs = "sort (a # t)" and ?ys = "sort (t @ [v])"
  have ys: "?ys = insort v ?ts" by (rule sort_snoc)
  have xs: "?xs = insort a ?ts" by simp
  have st: "sorted ?ts" by simp
  have lt: "length ?ts = 19" using n by simp
  have le: "?ys ! i \<le> ?xs ! Suc i" if "i < 19" for i
  proof -
    have "?ys ! i \<le> ?ts ! i"
      unfolding ys using that lt by (intro insort_nth_le[OF st]) simp
    also have "\<dots> \<le> ?xs ! Suc i"
      unfolding xs using that lt by (intro nth_le_insort_Suc[OF st]) simp
    finally show ?thesis .
  qed
  have n5: "5 \<le> length (a # t)" "5 \<le> length (t @ [v])" using n by simp_all
  have d: "length (a # t) div 2 = 10" "length (t @ [v]) div 2 = 10" using n by simp_all
  have c: "calculateStableBPM (a # t) = window5 ?xs 10 / 5"
    using calculateStableBPM_window[OF n5(1)] unfolding d by simp
  have c': "calculateStableBPM (t @ [v]) = window5 ?ys 10 / 5"
    using calculateStableBPM_window[OF n5(2)] unfolding d by simp
  have top: "inRange (?xs ! 13)" using n by (intro sort_nth_inRange[OF r(1)]) simp
  have bot: "inRange (?xs ! 8)" using n by (intro sort_nth_inRange[OF r(1)]) simp
  have "window5 ?ys 10 \<le> window5 ?xs 10 + 140"
    unfolding window5_def
    using le[of 8] le[of 9] le[of 10] le[of 11] le[of 12] top bot
    unfolding inRange_def by (simp add: eval_nat_numeral) 
  then show ?thesis unfolding c c' by simp
qed

lemma candidate_after_push:
  assumes "list_all inRange h" "inRange v" "5 \<le> length h" "length h \<le> 20"
  shows "calculateStableBPM (pushCapped 20 h v) \<le> calculateStableBPM h + 28"
proof (cases "length h = 20")
  case True
  then obtain a t where h: "h = a # t" by (cases h) auto
  have "pushCapped 20 h v = t @ [v]" using True by (simp add: pushCapped_def h)
  with candidate_after_shift[of a t v] assms(1,2) True show ?thesis by (simp add: h)
next
  case False
  with assms(4) have "pushCapped 20 h v = h @ [v]" by (simp add: pushCapped_def)
  with candidate_after_append[OF assms(1,2,3)] show ?thesis by simp
qed

lemma pushCapped_inRange:
  assumes "list_all inRange h" "inRange v"
  shows "list_all inRange (pushCapped n h v)"
  using assms by (cases h) (auto simp add: pushCapped_def Let_def)

lemma length_pushCapped:
  "length h \<le> n \<Longrightarrow> length (pushCapped n h v) = min n (length h + 1)"
  by (auto simp add: pushCapped_def Let_def)

subsection \<open>The detector: the stabilized tempo\<close>

lemma updateTempo_skip:
  "\<not> (0 < lastBeatTime s \<and> inRange (60000 / (ts - lastBeatTime s))) \<Longrightarrow>
     updateTempo ts s = (s, [])"
  by (auto simp add: updateTempo_def Let_def inRange_def)

lemma updateTempo_sample:
  assumes "0 < lastBeatTime s" and "inRange (60000 / (ts - lastBeatTime s))"
  shows "updateTempo ts s =
     (let h1 = admitted (60000 / (ts - lastBeatTime s)) s
      in if 3 \<le> length h1
         then (s\<lparr>bpmHistory := h1,
                  currentStableBPM := blend (currentStableBPM s) (calculateStableBPM h1)\<rparr>,
               [OnBPMUpdate (mathRound (blend (currentStableBPM s) (calculateStableBPM h1)))])
         else (s\<lparr>bpmHistory := h1\<rparr>, []))"
  using assms
  by (auto simp add: updateTempo_def Let_def inRange_def admitted_def blend_def)

lemma tempoInv_tempoOk: "tempoInv s = tempoOk (bpmHistory s) (currentStableBPM s)"
  by (simp add: tempoInv_def)

lemma list3: "length h = 3 \<Longrightarrow> \<exists>a b c. h = [a, b, c]"
  by (auto simp add: length_Suc_conv eval_nat_numeral)

lemma list4: "length h = 4 \<Longrightarrow> \<exists>a b c d. h = [a, b, c, d]"
  by (auto simp add: length_Suc_conv eval_nat_numeral)

lemma calculateStableBPM_five: "length h = 5 \<Longrightarrow> calculateStableBPM h = average h"
  by (auto simp add: calculateStableBPM_def Let_def average_sort)

lemma tempoOk_range: "tempoOk h st \<Longrightarrow> st = 0 \<or> inRange st"
proof -
  assume a: "tempoOk h st"
  consider "length h < 3" | "length h = 3" | "length h = 4" | "5 \<le> length h" by linarith
  then show ?thesis
  proof cases
    case 1
    with a show ?thesis by (simp add: tempoOk_def)
  next
    case 2
    then obtain x y z where "h = [x, y, z]" using list3 by blast
    with a have "inRange st" by (auto simp add: tempoOk_def average_def inRange_def)
    then show ?thesis by simp
  next
    case 3
    then obtain x y z w where "h = [x, y, z, w]" using list4 by blast
    with a have "inRange st"
      by (auto simp add: tempoOk_def average_def inRange_def) argo+
    then show ?thesis by simp
  next
    case 4
    with a show ?thesis by (simp add: tempoOk_def lagBound_def inRange_def)
  qed
qed

lemma lagBound_step:
  assumes "lagBound st c" and "c' \<le> c + 28" and "inRange c'"
  shows "lagBound (st * 0.8 + c' * 0.2) c' \<and> c' \<le> 2 * st \<and> st \<noteq> 0"
  using assms unfolding lagBound_def inRange_def by (intro conjI) linarith+

lemma tempo_step:
  assumes ok: "tempoOk h st" and v: "inRange bpm"
      and h1: "h1 = (if 5 \<le> length h \<and> 0 < st \<and> st * 0.4 < \<bar>bpm - st\<bar>
                     then h else pushCapped 20 h bpm)"
  shows "if 3 \<le> length h1
         then tempoOk h1 (blend st (calculateStableBPM h1))
              \<and> 0 \<le> calculateStableBPM h1
              \<and> (st = 0 \<or> calculateStableBPM h1 \<le> 2 * st)
         else tempoOk h1 st"
proof -
  from ok have r: "list_all inRange h" and l: "length h \<le> 20" by (simp_all add: tempoOk_def)
  consider "length h < 2" | "length h = 2" | "length h = 3" | "length h = 4" | "5 \<le> length h"
    by linarith
  then show ?thesis
  proof cases
    case 1
    then have e: "h1 = h @ [bpm]" by (simp add: h1 pushCapped_def)
    from ok 1 have "st = 0" by (simp add: tempoOk_def)
    with 1 r v show ?thesis by (simp add: e tempoOk_def)
  next
    case 2
    then have e: "h1 = h @ [bpm]" by (simp add: h1 pushCapped_def)
    from ok 2 have st: "st = 0" by (simp add: tempoOk_def)
    have c: "calculateStableBPM h1 = average h1"
      using 2 by (intro calculateStableBPM_small) (simp_all add: e)
    obtain x y where h: "h = [x, y]"
      using 2 by (auto simp add: length_Suc_conv eval_nat_numeral)
    have "0 \<le> average (h @ [bpm])"
      using r v unfolding h by (simp add: average_def inRange_def)
    with 2 r v show ?thesis
      by (simp add: e tempoOk_def st blend_def c[unfolded e])
  next
    case 3
    then have e: "h1 = h @ [bpm]" by (simp add: h1 pushCapped_def)
    from ok 3 have st: "st = average h" by (simp add: tempoOk_def)
    obtain x y z where h: "h = [x, y, z]" using 3 list3 by blast
    have c: "calculateStableBPM h1 = average h1"
      using 3 by (intro calculateStableBPM_small) (simp_all add: e)
    have b: "60 \<le> x" "x \<le> 200" "60 \<le> y" "y \<le> 200" "60 \<le> z" "z \<le> 200"
      "60 \<le> bpm" "bpm \<le> 200"
      using r v unfolding h by (simp_all add: inRange_def)
    have sv: "st = (x + y + z) / 3" by (simp add: st h average_def add.assoc)
    have cv: "average h1 = (x + y + z + bpm) / 4" by (simp add: e h average_def add.assoc)
    have n0: "st \<noteq> 0" unfolding sv using b by argo
    have t3: "take 3 h1 = h" by (simp add: e h)
    have 1: "tempoOk h1 (blend st (calculateStableBPM h1))"
      using r v 3 n0 by (simp add: tempoOk_def e blend_def c[unfolded e] st)
    have 2: "0 \<le> calculateStableBPM h1" unfolding c cv using b by argo
    have 3: "calculateStableBPM h1 \<le> 2 * st" unfolding c cv sv using b by argo
    from 1 2 3 \<open>length h = 3\<close> show ?thesis by (simp add: e)
  next
    case 4
    then have e: "h1 = h @ [bpm]" by (simp add: h1 pushCapped_def)
    from ok 4 have st: "st = average (take 3 h) * 0.8 + average h * 0.2" by (simp add: tempoOk_def)
    obtain x y z w where h: "h = [x, y, z, w]" using 4 list4 by blast
    have c: "calculateStableBPM h1 = average h1"
      using 4 by (intro calculateStableBPM_five) (simp add: e)
    have b: "60 \<le> x" "x \<le> 200" "60 \<le> y" "y \<le> 200" "60 \<le> z" "z \<le> 200"
      "60 \<le> w" "w \<le> 200" "60 \<le> bpm" "bpm \<le> 200"
      using r v unfolding h by (simp_all add: inRange_def)
    have sv: "st = (x + y + z) / 3 * (4 / 5) + (x + y + z + w) / 4 * (1 / 5)"
      by (simp add: st h average_def add.assoc)
    have cv: "average h1 = (x + y + z + w + bpm) / 5" by (simp add: e h average_def add.assoc)
    have n0: "st \<noteq> 0" unfolding sv using b by argo
    define S where "S = (x + y + z) / 3 * (4 / 5) + (x + y + z + w) / 4 * (1 / 5)"
    define C where "C = (x + y + z + w + bpm) / 5"
    have eqc: "calculateStableBPM h1 = C" by (simp only: c cv C_def)
    have eqs: "st = S" by (simp only: sv S_def)
    have S0: "S \<noteq> 0" using n0 eqs by simp
    have lb0: "lagBound (S * (4 / 5) + C * (1 / 5)) C"
      unfolding lagBound_def S_def C_def using b by (intro conjI) argo+
    have lb: "lagBound (blend st (calculateStableBPM h1)) (calculateStableBPM h1)"
      unfolding eqc eqs using lb0 S0 by (simp add: blend_def)
    have 1: "tempoOk h1 (blend st (calculateStableBPM h1))"
      using r v 4 lb by (simp add: tempoOk_def e)
    have 2: "0 \<le> calculateStableBPM h1" unfolding c cv using b by argo
    have 3: "calculateStableBPM h1 \<le> 2 * st" unfolding c cv sv using b by argo
    from 1 2 3 \<open>length h = 4\<close> show ?thesis by (simp add: e)
  next
    case 5
    with ok have lb: "lagBound st (calculateStableBPM h)" by (simp add: tempoOk_def)
    have r1: "list_all inRange h1" using r v by (simp add: h1 pushCapped_inRange)
    have l1: "5 \<le> length h1" "length h1 \<le> 20"
      using 5 l by (simp_all add: h1 length_pushCapped)
    have c1: "inRange (calculateStableBPM h1)" by (rule window5_inRange[OF r1 l1(1)])
    have up: "calculateStableBPM h1 \<le> calculateStableBPM h + 28"
      using candidate_after_push[OF r v 5 l] by (simp add: h1)
    from lagBound_step[OF lb up c1]
    have s: "lagBound (st * 0.8 + calculateStableBPM h1 * 0.2) (calculateStableBPM h1)"
      "calculateStableBPM h1 \<le> 2 * st" "st \<noteq> 0" by simp_all
    have 1: "tempoOk h1 (blend st (calculateStableBPM h1))"
      using r1 l1 s by (simp add: tempoOk_def blend_def)
    have 2: "0 \<le> calculateStableBPM h1" using c1 by (simp add: inRange_def)
    from 1 2 s(2) l1 show ?thesis by simp
  qed
qed

lemma tempoInv_cong:
  "bpmHistory a = bpmHistory b \<Longrightarrow> currentStableBPM a = currentStableBPM b \<Longrightarrow>
     tempoInv a = tempoInv b"
  by (simp add: tempoInv_def)

lemma tempoStep_cong:
  assumes "tempoStep a a' cbs"
      and "bpmHistory b = bpmHistory a" "currentStableBPM b = currentStableBPM a"
      and "bpmHistory b' = bpmHistory a'" "currentStableBPM b' = currentStableBPM a'"
      and "bpmUpdates cbs' = bpmUpdates cbs"
  shows "tempoStep b b' cbs'"
  using assms tempoInv_cong[of b' a'] by (simp add: tempoStep_def)

lemma tempoStep_idle:
  assumes "tempoInv s" and "bpmHistory s' = bpmHistory s" "currentStableBPM s' = currentStableBPM s"
      and "bpmUpdates cbs = []"
  shows "tempoStep s s' cbs"
  using assms tempoInv_cong[of s' s] tempoOk_range[of "bpmHistory s" "currentStableBPM s"]
  by (auto simp add: tempoStep_def tempoInv_tempoOk inRange_def)

lemma bpmUpdates_append: "bpmUpdates (xs @ ys) = bpmUpdates xs @ bpmUpdates ys"
  by (induction xs rule: bpmUpdates.induct) simp_all

lemma updateTempo_tempoStep:
  assumes inv: "tempoInv s"
  shows "tempoStep s (fst (updateTempo ts s)) (snd (updateTempo ts s))"
proof (cases "0 < lastBeatTime s \<and> inRange (60000 / (ts - lastBeatTime s))")
  case False
  then have "updateTempo ts s = (s, [])" by (rule updateTempo_skip)
  with inv show ?thesis by (simp add: tempoStep_idle)
next
  case True
  let ?bpm = "60000 / (ts - lastBeatTime s)"
  let ?h1 = "admitted ?bpm s"
  let ?st = "currentStableBPM s"
  let ?c = "calculateStableBPM ?h1"
  from True have v: "inRange ?bpm" and p: "0 < lastBeatTime s" by simp_all
  have ok: "tempoOk (bpmHistory s) ?st" using inv by (simp add: tempoInv_tempoOk)
  have h1: "?h1 = (if 5 \<le> length (bpmHistory s) \<and> 0 < ?st \<and> ?st * 0.4 < \<bar>?bpm - ?st\<bar>
                     then bpmHistory s else pushCapped 20 (bpmHistory s) ?bpm)"
    by (simp add: admitted_def bpmHistorySize_def)
  note step = tempo_step[OF ok v h1]
  note u = updateTempo_sample[OF p v]
  show ?thesis
  proof (cases "3 \<le> length ?h1")
    case False
    with step have "tempoOk ?h1 ?st" by simp
    with False u tempoOk_range[OF ok] show ?thesis
      by (auto simp add: Let_def tempoStep_def tempoInv_tempoOk inRange_def)
  next
    case True
    with step have 1: "tempoOk ?h1 (blend ?st ?c)" and 2: "0 \<le> ?c"
      and 3: "?st = 0 \<or> ?c \<le> 2 * ?st" by simp_all
    have 4: "?st = 0 \<or> \<bar>blend ?st ?c - ?st\<bar> \<le> 0.2 * ?st"
    proof (cases "?st = 0")
      case True
      then show ?thesis by simp
    next
      case False
      with 3 have "?c \<le> 2 * ?st" by simp
      with 2 have "\<bar>(?st * 0.8 + ?c * 0.2) - ?st\<bar> \<le> 0.2 * ?st" by argo
      with False show ?thesis by (simp add: blend_def)
    qed
    from True u 1 4 show ?thesis
      by (simp add: Let_def tempoStep_def tempoInv_tempoOk)
  qed
qed

lemma bpmUpdates_predictiveTrigger: "bpmUpdates (snd (predictiveTrigger tk s)) = []"
  by (cases "predictiveFires tk s") (simp_all add: predictiveTrigger_fires predictiveTrigger_idle)

lemma mainPath_tempoStep:
  assumes inv: "tempoInv s"
  shows "tempoStep s (fst (mainPath tk s)) (snd (mainPath tk s))"
proof (cases "mainAccepts tk s")
  case True
  let ?s2 = "(pushed tk s)\<lparr>previousEnergy := mainEnergy tk,
               beatHistory := pushCapped 15 (beatHistory s) (tDetect tk)\<rparr>"
  from mainPath_accepts[OF True] obtain s3 cbs3 where
    u: "updateTempo (tStamp tk) ?s2 = (s3, cbs3)"
    and p: "mainPath tk s =
          (updateBeatPrediction (tStamp tk)
             (s3\<lparr>lastBeatTime := tStamp tk, beatCount := beatCount s + 1\<rparr>),
           cbs3 @ [OnBeat MainPath \<lparr>beat = True, downbeat = isDownbeat s,
                     timestamp = tStamp tk, energy = mainEnergy tk\<rparr>])"
    by blast
  have f: "bpmHistory ?s2 = bpmHistory s" "currentStableBPM ?s2 = currentStableBPM s"
    by (simp_all add: pushed_def)
  have "tempoInv ?s2" using inv tempoInv_cong[OF f] by simp
  from updateTempo_tempoStep[OF this, of "tStamp tk"] u
  have "tempoStep ?s2 s3 cbs3" by simp
  then show ?thesis
    unfolding p
    by (rule tempoStep_cong)
       (simp_all add: pushed_def updateBeatPrediction_def bpmUpdates_append)
next
  case False
  show ?thesis
  proof (cases "mainDetects tk s")
    case True
    with False have "tStamp tk - lastPredictedBeatTime s < 150" by (simp add: mainAccepts_def)
    from mainPath_suppressed[OF True this] show ?thesis
      by (intro tempoStep_idle[OF inv]) (simp_all add: pushed_def)
  next
    case d: False
    from mainPath_idle[OF d] show ?thesis
      by (intro tempoStep_idle[OF inv]) (simp_all add: pushed_def)
  qed
qed

lemma processAudio_tempoStep:
  assumes inv: "tempoInv s"
  shows "tempoStep s (fst (processAudio tk s)) (snd (processAudio tk s))"
proof -
  let ?s1 = "fst (predictiveTrigger tk s)"
  have f: "bpmHistory ?s1 = bpmHistory s" "currentStableBPM ?s1 = currentStableBPM s"
    using predictiveTrigger_tempo[of tk s] by simp_all
  have "tempoInv ?s1" using inv tempoInv_cong[OF f] by simp
  then have "tempoStep ?s1 (fst (mainPath tk ?s1)) (snd (mainPath tk ?s1))"
    by (rule mainPath_tempoStep)
  then show ?thesis
    by (rule tempoStep_cong)
       (simp_all add: f processAudio_def split_beta bpmUpdates_append bpmUpdates_predictiveTrigger)
qed

lemma tempoInv_initial: "tempoInv initial"
  by (simp add: tempoInv_def tempoOk_def initial_def)

lemma tempoInv_run: "tempoInv (fst (run tks initial))"
proof -
  have "(\<lambda>s es. tempoInv s) (fst (run tks initial)) ([] @ beatsOf (snd (run tks initial)))"
  proof (rule run_invariant)
    show "tempoInv initial" by (rule tempoInv_initial)
  next
    fix tk s
    assume "tempoInv s"
    from processAudio_tempoStep[OF this, of tk]
    show "tempoInv (fst (processAudio tk s))" by (simp add: tempoStep_def)
  qed
  then show ?thesis by simp
qed

text \<open>
  C5. Let \<open>s\<close> be the state after any session from the initial state and \<open>s'\<close> the
  state after one more tick. Then the stabilized tempo of \<open>s'\<close> is 0 (not yet
  established) or lies in 60..200; if the tempo of \<open>s\<close> is established, the tempo of
  \<open>s'\<close> is established too and differs from it by at most 20 percent of it; and either
  the tick makes no \<open>onBPMUpdate\<close> call and leaves the tempo as it is, or it makes one
  call, with the rounded new tempo, and the new tempo is the candidate computed from BPM
  History when the old tempo was 0 and old times 0.8 plus candidate times 0.2 otherwise.
  (Numbers are reals here; the 20 percent bound rests on the invariant \<open>tempoInv\<close>.)
\<close>

theorem stabilized_tempo_bounds:
  assumes "run pre initial = (s, cbs0)" and "processAudio tk s = (s', cbs)"
  shows "(currentStableBPM s' = 0 \<or> 60 \<le> currentStableBPM s' \<and> currentStableBPM s' \<le> 200)
       \<and> (currentStableBPM s = 0
            \<or> currentStableBPM s' \<noteq> 0
              \<and> \<bar>currentStableBPM s' - currentStableBPM s\<bar> \<le> 0.2 * currentStableBPM s)
       \<and> (bpmUpdates cbs = [] \<and> currentStableBPM s' = currentStableBPM s
            \<or> bpmUpdates cbs = [mathRound (currentStableBPM s')]
              \<and> currentStableBPM s'
                  = (if currentStableBPM s = 0 then calculateStableBPM (bpmHistory s')
                     else currentStableBPM s * 0.8 + calculateStableBPM (bpmHistory s') * 0.2))"
proof -
  have inv: "tempoInv s" using tempoInv_run[of pre] assms(1) by simp
  from processAudio_tempoStep[OF inv, of tk] assms(2)
  have st: "tempoStep s s' cbs" by simp
  then have inv': "tempoInv s'" by (simp add: tempoStep_def)
  from tempoOk_range[of "bpmHistory s" "currentStableBPM s"] inv
  have r: "currentStableBPM s = 0 \<or> inRange (currentStableBPM s)"
    by (simp add: tempoInv_tempoOk)
  from tempoOk_range[of "bpmHistory s'" "currentStableBPM s'"] inv'
  have r': "currentStableBPM s' = 0 \<or> inRange (currentStableBPM s')"
    by (simp add: tempoInv_tempoOk)
  from st have d: "currentStableBPM s = 0
           \<or> \<bar>currentStableBPM s' - currentStableBPM s\<bar> \<le> 0.2 * currentStableBPM s"
    by (simp add: tempoStep_def)
  have n: "currentStableBPM s = 0 \<or> currentStableBPM s' \<noteq> 0"
    using r d unfolding inRange_def by argo
  from st have b: "bpmUpdates cbs = [] \<and> currentStableBPM s' = currentStableBPM s
           \<or> bpmUpdates cbs = [mathRound (currentStableBPM s')]
              \<and> currentStableBPM s'
                  = blend (currentStableBPM s) (calculateStableBPM (bpmHistory s'))"
    by (simp add: tempoStep_def)
  show ?thesis
    using r' d n b unfolding inRange_def blend_def by blast
qed

subsection \<open>The second concrete session\<close>

lemma step_tkC: "processAudio tkC sA = (sC, [OnBeat MainPath (beatAt False 1800)])"
  by code_simp

lemma step_tkD: "processAudio tkD sC = (sD, [OnBeat Predictive (beatAt False 2850)])"
  by code_simp

lemma step_tkE: "processAudio tkE sD = (sE, [OnBeat MainPath (beatAt False 3350)])"
  by code_simp

lemma step_tkF:
  "processAudio tkF sE = (sF, [OnBPMUpdate 122, OnBeat MainPath (beatAt False 3700)])"
  by code_simp

lemma step_tkG:
  "processAudio tkG sF = (sG, [OnBPMUpdate 125, OnBeat MainPath (beatAt False 4050)])"
  by code_simp

lemma run_to_F:
  "run (coldTicks @ [tkA, tkC, tkD, tkE, tkF]) initial
     = (sF, [OnBeat MainPath (beatAt True 1000), OnBeat MainPath (beatAt False 1800),
             OnBeat Predictive (beatAt False 2850), OnBeat MainPath (beatAt False 3350),
             OnBPMUpdate 122, OnBeat MainPath (beatAt False 3700)])"
  by (simp add: run_append run_coldTicks step_tkA step_tkC step_tkD step_tkE step_tkF split_beta)

lemma sF_sG_tempo:
  "currentStableBPM sF = 855 / 7" "currentStableBPM sG = 3489 / 28"
  "bpmHistory sG = [75, 120, 1200 / 7, 1200 / 7]"
  by (simp_all add: sF_def sG_def)

lemma candidate_sG: "calculateStableBPM [75, 120, 1200 / 7, 1200 / 7] = 3765 / 28"
  by code_simp

text \<open>
  C5 on the second session: the tick at 4050 ms moves the established tempo from 855/7 to
  3489/28, the blend of 855/7 with the candidate 3765/28, a change of less than 20 percent
  within 60..200.
\<close>

theorem stabilized_tempo_bounds_witness:
  "run (coldTicks @ [tkA, tkC, tkD, tkE, tkF]) initial
     = (sF, [OnBeat MainPath (beatAt True 1000), OnBeat MainPath (beatAt False 1800),
             OnBeat Predictive (beatAt False 2850), OnBeat MainPath (beatAt False 3350),
             OnBPMUpdate 122, OnBeat MainPath (beatAt False 3700)])
   \<and> processAudio tkG sF = (sG, [OnBPMUpdate 125, OnBeat MainPath (beatAt False 4050)])
   \<and> currentStableBPM sF = 855 / 7 \<and> currentStableBPM sG = 3489 / 28
   \<and> calculateStableBPM (bpmHistory sG) = 3765 / 28
   \<and> 60 \<le> currentStableBPM sG \<and> currentStableBPM sG \<le> 200
   \<and> \<bar>currentStableBPM sG - currentStableBPM sF\<bar> \<le> 0.2 * currentStableBPM sF
   \<and> currentStableBPM sG = currentStableBPM sF * 0.8 + calculateStableBPM (bpmHistory sG) * 0.2"
proof -
  note t = stabilized_tempo_bounds[OF run_to_F step_tkG]
  have nz: "currentStableBPM sF \<noteq> 0" "currentStableBPM sG \<noteq> 0"
    by (simp_all add: sF_sG_tempo)
  have up: "bpmUpdates [OnBPMUpdate 125, OnBeat MainPath (beatAt False 4050)] \<noteq> []"
    by simp
  from t nz have 1: "60 \<le> currentStableBPM sG \<and> currentStableBPM sG \<le> 200" by blast
  from t nz have 2: "\<bar>currentStableBPM sG - currentStableBPM sF\<bar> \<le> 0.2 * currentStableBPM sF"
    by blast
  from t up nz have 3: "currentStableBPM sG
      = currentStableBPM sF * 0.8 + calculateStableBPM (bpmHistory sG) * 0.2"
    by (metis (full_types))
  have c: "calculateStableBPM (bpmHistory sG) = 3765 / 28"
    by (simp only: sF_sG_tempo candidate_sG)
  from 1 have lo: "60 \<le> currentStableBPM sG" and hi: "currentStableBPM sG \<le> 200" by simp_all
  show ?thesis
    by (intro conjI) (fact run_to_F step_tkG sF_sG_tempo(1) sF_sG_tempo(2) c lo hi 2 3)+
qed

end
